theory Spec2Isabelle
  imports Main
begin

section \<open>Values and formats\<close>

text \<open>
  Document metadata is a JavaScript \<open>Record<string, unknown>\<close>: a list of own
  properties in creation order, with JSON values.
\<close>

datatype json =
    JNull
  | JBool bool
  | JNum int
  | JStr string
  | JArr "json list"
  | JObj "(string \<times> json) list"

type_synonym frontmatter = "(string \<times> json) list"

text \<open>\<open>DocumentFormat\<close> is \<open>'md' | 'mdx' | 'mdoc'\<close>; \<open>DocumentFormatInput\<close> adds \<open>'detect'\<close>.\<close>

datatype DocumentFormat = MD | MDX | MDOC

datatype DocumentFormatInput = Detect | Explicit DocumentFormat

datatype EventName = Add | AddDir | Change | Unlink | UnlinkDir

datatype GenerationMode = Development | Production

section \<open>Node's \<open>path.extname\<close> (POSIX)\<close>

text \<open>
  The library function scans the path from its last character to its first. The loop
  is written over the reversed path: at \<open>c # cs\<close> the index is \<open>i = length cs\<close>.
  \<open>None\<close> stands for the sentinel \<open>-1\<close> of \<open>startDot\<close> and \<open>end\<close>.
\<close>

record ExtnameState =
  startDot :: "nat option"
  startPart :: nat
  endPos :: "nat option"
  matchedSlash :: bool
  preDotState :: int

fun extname_loop :: "string \<Rightarrow> ExtnameState \<Rightarrow> ExtnameState" where
  "extname_loop [] s = s"
| "extname_loop (c # cs) s =
     (let i = length cs in
      if c = CHR ''/'' then
        (if \<not> matchedSlash s then s\<lparr>startPart := i + 1\<rparr> else extname_loop cs s)
      else
        (let s1 = (if endPos s = None then s\<lparr>endPos := Some (i + 1), matchedSlash := False\<rparr> else s);
             s2 = (if c = CHR ''.'' then
                     (if startDot s1 = None then s1\<lparr>startDot := Some i\<rparr>
                      else if preDotState s1 \<noteq> 1 then s1\<lparr>preDotState := 1\<rparr>
                      else s1)
                   else if startDot s1 \<noteq> None then s1\<lparr>preDotState := - 1\<rparr>
                   else s1)
         in extname_loop cs s2))"

definition extname :: "string \<Rightarrow> string" where
  "extname path =
     (let s = extname_loop (rev path)
                \<lparr>startDot = None, startPart = 0, endPos = None, matchedSlash = True, preDotState = 0\<rparr>
      in case startDot s of
           None \<Rightarrow> []
         | Some sd \<Rightarrow>
             (case endPos s of
                None \<Rightarrow> []
              | Some e \<Rightarrow>
                  if preDotState s = 0 \<or> (preDotState s = 1 \<and> sd = e - 1 \<and> sd = startPart s + 1)
                  then []
                  else take (e - sd) (drop sd path)))"

section \<open>Format resolution\<close>

text \<open>
  Thrown values. \<open>Error\<close> is \<open>new Error(message)\<close>; \<open>TypeError\<close> is the engine's own;
  the other two are \<open>MarkdownlayerError\<close>s, the second with its message and its
  \<open>location\<close> \<open>{file, line, column}\<close>.
\<close>

record ErrorLocation =
  loc_file :: string
  loc_line :: int
  loc_column :: int

datatype error =
    Error string
  | TypeError string
  | ConfigNoPatternsError
  | InvalidDocumentFrontmatterError string ErrorLocation

definition mdExtensions :: "string list" where
  "mdExtensions =
     [''.md'', ''.markdown'', ''.mdown'', ''.mkdn'', ''.mkd'', ''.mdwn'', ''.mkdown'', ''.ron'']"

definition getFormat :: "string \<Rightarrow> DocumentFormatInput \<Rightarrow> error + DocumentFormat" where
  "getFormat file format =
     (case format of
        Detect \<Rightarrow>
          (let ext = extname file in
           if ext \<in> set mdExtensions then Inr MD
           else if ext = ''.mdx'' then Inr MDX
           else if ext = ''.mdoc'' then Inr MDOC
           else Inl (Error (''Unable to detect format for file: '' @ file)))
      | Explicit f \<Rightarrow> Inr f)"

section \<open>Schemas\<close>

text \<open>
  A schema is what \<open>safeParseAsync\<close> does on a metadata block: it returns the transformed
  data, or an error with at least one issue (the first one is kept apart). The elements of
  an issue's \<open>path\<close> are kept as \<open>String(...)\<close> gives them. A validator is a function of
  the document it is resolved for and of the metadata block; what a validator may itself
  do to shared state is not part of the model.
\<close>

record ZodIssue =
  issue_path :: "string list"
  issue_message :: string

datatype SafeParseReturn = ParseSuccess frontmatter | ParseFailure ZodIssue "ZodIssue list"

type_synonym Schema = "frontmatter \<Rightarrow> SafeParseReturn"

record SchemaContext =
  sc_type :: string
  sc_path :: string
  sc_contents :: string
  sc_frontmatter :: frontmatter

datatype SchemaSpec = Static Schema | Factory "SchemaContext \<Rightarrow> Schema"

section \<open>Configuration, cache and the world\<close>

datatype Patterns = Pattern string | PatternList "string list"

fun patterns_length :: "Patterns \<Rightarrow> nat" where
  "patterns_length (Pattern p) = length p"
| "patterns_length (PatternList ps) = length ps"

record DocumentDefinition =
  schema :: "SchemaSpec option"
  format :: "DocumentFormatInput option"

record Output =
  output_assets :: string
  output_generated :: string

text \<open>
  The resolved configuration, without its \<open>cache\<close>: the cache is the one part a pass
  mutates, so it lives in the world below. \<open>definitions\<close> is the list
  \<open>Object.entries(config.definitions)\<close>.
\<close>

record ResolvedConfig =
  configPath :: string
  contentDirPath :: string
  patterns :: "Patterns option"
  cfg_output :: Output
  definitions :: "(string \<times> DocumentDefinition) list"
  mdAsMarkdoc :: "bool option"
  configImports :: "string list"

record GenerateDocsOptions = DocumentDefinition +
  opts_type :: string
  opts_config :: ResolvedConfig

record ResolveSchemaOptions =
  rs_type :: string
  rs_schema :: "SchemaSpec option"
  rs_path :: string
  rs_contents :: string
  rs_frontmatter :: frontmatter
  rs_config :: ResolvedConfig

record CacheItem =
  item_hash :: string
  item_type :: string
  document :: frontmatter

record MarkdownlayerCache =
  items :: "string \<rightharpoonup> CacheItem"
  uniques :: "(string \<times> string) list"

record GeneratedCount =
  cached :: nat
  generated :: nat
  total :: nat

text \<open>
  What a run does to the outside, in order, one constructor for each statement of the
  source that does it: \<open>mkdir\<close>; \<open>outputEntryFiles\<close>; \<open>readFile\<close> of a content file; the
  \<open>writeFile\<close> of a document's artifact, of \<open>index.json\<close> and of \<open>index.mjs\<close>, each with its
  path and with what is serialised into it; \<open>outputAssets\<close>; \<open>cache.save()\<close>; the log lines
  (the statistics with \<open>total\<close> and \<open>cached\<close>, the changed file, the restart, the watching
  notice, the warning with the error caught); \<open>watcher.close()\<close> and \<open>chokidar.watch(files)\<close>.
\<close>

datatype Effect =
    Mkdir string
  | OutputEntryFiles
  | ReadFile string
  | WriteDocument string frontmatter
  | WriteCollection string "frontmatter list"
  | WriteImports string string
  | OutputAssets
  | CacheSave
  | LogGenerated nat nat
  | LogChanged string
  | LogRestarting
  | LogWatching string
  | LogWarn error
  | WatcherClose
  | WatcherStart "string list"

text \<open>
  The mutable state of a process: the cache of the configuration, the trace of effects,
  and the memo table of the metadata extractor (\<open>matter.cache\<close> of gray-matter: the
  inputs it has parsed since the process started).
\<close>

record World =
  cache :: MarkdownlayerCache
  effects :: "Effect list"
  matterCache :: "string set"

record DocumentBody =
  body_format :: DocumentFormat
  raw :: string
  code :: string

record BundleProps =
  bp_contents :: string
  entryPath :: string
  bp_format :: DocumentFormat
  plugins :: ResolvedConfig
  bp_frontmatter :: frontmatter

record BundleResult =
  br_code :: string
  br_errors :: "string list option"

text \<open>
  What gray-matter parses out of an input: the data and the raw front-matter block (empty
  when the input has no front matter). What \<open>matter(input)\<close> returns: the data, and the
  \<open>matter\<close> property when the result carries it.
\<close>

record ParsedMatter =
  pm_data :: frontmatter
  pm_matter :: string

record GrayMatterFile =
  gm_data :: frontmatter
  gm_matter :: "string option"

text \<open>
  The collaborators and the file system a pass reads. \<open>stat_mtimeMs file\<close> is
  \<open>(await stat(file)).mtimeMs.toString()\<close>; \<open>globby patterns cwd\<close> is the call of the
  source with its fixed options (\<open>absolute: true\<close> among them); \<open>join\<close> and \<open>relative\<close>
  are Node's; \<open>parseMatter\<close> is gray-matter's parser; the rest are the helpers of the
  repository that a pass calls: \<open>getYamlErrorLine\<close> (its first argument may be
  \<open>undefined\<close>), the message of \<open>InvalidDocumentFrontmatterError\<close>, the naming utilities and
  the bundler (\<open>bundle\<close>, here \<open>bundle'\<close>). Content files exist and are readable, their
  front matter parses, and the output directory is not part of the content tree.
\<close>

record Env =
  stat_mtimeMs :: "string \<Rightarrow> string"
  readFile :: "string \<Rightarrow> string"
  globby :: "Patterns \<Rightarrow> string \<Rightarrow> string list"
  parseMatter :: "string \<Rightarrow> ParsedMatter"
  join :: "string list \<Rightarrow> string"
  relative :: "string \<Rightarrow> string \<Rightarrow> string"
  getYamlErrorLine :: "string option \<Rightarrow> string \<Rightarrow> int"
  frontmatterErrorMessage :: "string \<Rightarrow> string \<Rightarrow> ZodIssue list \<Rightarrow> string"
  idToFileName :: "string \<Rightarrow> string"
  makeVariableName :: "string \<Rightarrow> string"
  getDataVariableName :: "string \<Rightarrow> string"
  assertStatement :: string
  autogeneratedNote :: string
  bundle' :: "BundleProps \<Rightarrow> BundleResult"

section \<open>The body schema\<close>

text \<open>
  The transform of \<open>body\<close>: it throws when the format cannot be detected, adds an issue
  with the bundler's first error, or returns the document body.
\<close>

datatype BodyResult = Thrown error | BodyIssue string | Body DocumentBody

definition body ::
  "Env \<Rightarrow> string \<Rightarrow> DocumentFormatInput option \<Rightarrow> string \<Rightarrow> frontmatter \<Rightarrow> ResolvedConfig
    \<Rightarrow> BodyResult" where
  "body env path formatInput contents fm config =
     (let mdAsMarkdoc' = (case mdAsMarkdoc config of None \<Rightarrow> False | Some b \<Rightarrow> b) in
      case getFormat path (case formatInput of None \<Rightarrow> Detect | Some f \<Rightarrow> f) of
        Inl e \<Rightarrow> Thrown e
      | Inr format0 \<Rightarrow>
          (let format' = (if format0 = MD \<and> mdAsMarkdoc' then MDOC else format0);
               options = \<lparr>bp_contents = contents, entryPath = path, bp_format = format',
                          plugins = config, bp_frontmatter = fm\<rparr>;
               res = bundle' env options
           in case br_errors res of
                Some (e # es) \<Rightarrow> BodyIssue e
              | _ \<Rightarrow> Body \<lparr>body_format = format', raw = contents, code = br_code res\<rparr>))"

section \<open>JavaScript objects as ordered property lists\<close>

text \<open>
  \<open>docs\<close> and \<open>generations\<close> are plain objects. \<open>obj[k] = v\<close> keeps the place of an
  existing property and appends a new one; \<open>Object.keys\<close>, \<open>Object.values\<close> and
  \<open>Object.entries\<close> list array-index keys first, in ascending numeric order, and then the
  other keys in creation order. An array index is a canonical decimal numeral below
  \<open>2^32 - 1\<close>. The keys of \<open>docs\<close> and of \<open>cache.items\<close> are the absolute paths that
  \<open>globby\<close> returns, so no key is a property that a plain object inherits (\<open>__proto__\<close>,
  \<open>constructor\<close>), and \<open>cache.items\<close>, which is only read and written by key, is a map.
\<close>

type_synonym 'v jsobject = "(string \<times> 'v) list"

fun obj_set :: "string \<Rightarrow> 'v \<Rightarrow> 'v jsobject \<Rightarrow> 'v jsobject" where
  "obj_set k v [] = [(k, v)]"
| "obj_set k v ((k', v') # ps) = (if k = k' then (k, v) # ps else (k', v') # obj_set k v ps)"

definition digitsValue :: "string \<Rightarrow> nat" where
  "digitsValue k = foldl (\<lambda>n c. 10 * n + (of_char c - 48)) 0 k"

definition isArrayIndex :: "string \<Rightarrow> bool" where
  "isArrayIndex k \<longleftrightarrow>
     k \<noteq> [] \<and> list_all (\<lambda>c. c \<in> set ''0123456789'') k \<and> (k = ''0'' \<or> hd k \<noteq> CHR ''0'')
     \<and> digitsValue k < 2 ^ 32 - 1"

definition ownEntries :: "'v jsobject \<Rightarrow> (string \<times> 'v) list" where
  "ownEntries obj =
     sort_key (\<lambda>(k, v). digitsValue k) (filter (\<lambda>(k, v). isArrayIndex k) obj)
     @ filter (\<lambda>(k, v). \<not> isArrayIndex k) obj"

definition Object_keys :: "'v jsobject \<Rightarrow> string list" where
  "Object_keys obj = map fst (ownEntries obj)"

definition Object_values :: "'v jsobject \<Rightarrow> 'v list" where
  "Object_values obj = map snd (ownEntries obj)"

text \<open>\<open>Array.prototype.join\<close> on strings.\<close>

fun js_join :: "string \<Rightarrow> string list \<Rightarrow> string" where
  "js_join sep [] = []"
| "js_join sep [x] = x"
| "js_join sep (x # y # ys) = x @ sep @ js_join sep (y # ys)"

section \<open>The document type processor\<close>

text \<open>
  Modelled from the spec: \<open>resolveSchema\<close> (\<open>./schemas/resolve\<close> is not among the sources).
  The schema specification is a fixed object or a factory that receives the document's
  context and returns the validator; a type that declares no schema has none.
\<close>

definition resolveSchema :: "ResolveSchemaOptions \<Rightarrow> Schema option" where
  "resolveSchema opts =
     (case rs_schema opts of
        None \<Rightarrow> None
      | Some (Static s) \<Rightarrow> Some s
      | Some (Factory f) \<Rightarrow>
          Some (f \<lparr>sc_type = rs_type opts, sc_path = rs_path opts, sc_contents = rs_contents opts,
                   sc_frontmatter = rs_frontmatter opts\<rparr>))"

text \<open>\<open>String(parsed.error.errors[0].path[0])\<close>: an empty path gives \<open>String(undefined)\<close>.\<close>

definition firstPathKey :: "ZodIssue \<Rightarrow> string" where
  "firstPathKey issue = (case issue_path issue of [] \<Rightarrow> ''undefined'' | p # ps \<Rightarrow> p)"

text \<open>The local variables of the loop of \<open>generateDocuments\<close>.\<close>

record LoopState =
  n_cached :: nat
  n_generated :: nat
  docs :: "frontmatter jsobject"

text \<open>
  \<open>matter(input)\<close> of gray-matter, called with no options as the source calls it, on the
  memo table \<open>memo\<close>. An empty input gives empty data and no \<open>matter\<close> property. Any other
  input is memoised: the first call parses it, stores the result under the input and
  returns it, raw block included; a later call with the same input returns a copy of the
  stored result made by \<open>Object.assign\<close>, which leaves out the non-enumerable \<open>matter\<close>
  property.
\<close>

definition grayMatter :: "Env \<Rightarrow> string set \<Rightarrow> string \<Rightarrow> GrayMatterFile \<times> string set" where
  "grayMatter env memo input =
     (if input = [] then (\<lparr>gm_data = [], gm_matter = None\<rparr>, memo)
      else if input \<in> memo
      then (\<lparr>gm_data = pm_data (parseMatter env input), gm_matter = None\<rparr>, memo)
      else (\<lparr>gm_data = pm_data (parseMatter env input),
             gm_matter = Some (pm_matter (parseMatter env input))\<rparr>,
            insert input memo))"

text \<open>
  The loop's body from \<open>readFile\<close> to the end of the schema check, for one file and the
  memo table at that point: the value of \<open>data\<close>, or the error thrown.
\<close>

definition validateFile ::
  "Env \<Rightarrow> 'a GenerateDocsOptions_scheme \<Rightarrow> string \<Rightarrow> string set \<Rightarrow> error + frontmatter" where
  "validateFile env options file memo =
     (let ty = opts_type options;
          config = opts_config options;
          contents = readFile env file;
          parsedMatter = fst (grayMatter env memo contents);
          fm = gm_data parsedMatter;
          resolveSchemaOptions =
            \<lparr>rs_type = ty, rs_schema = schema options, rs_path = file, rs_contents = contents,
             rs_frontmatter = fm, rs_config = config\<rparr>
      in case resolveSchema resolveSchemaOptions of
           None \<Rightarrow> Inr fm
         | Some sch \<Rightarrow>
             (case sch fm of
                ParseSuccess d \<Rightarrow> Inr d
              | ParseFailure issue others \<Rightarrow>
                  Inl (InvalidDocumentFrontmatterError
                         (frontmatterErrorMessage env ty (relative env (configPath config) file)
                            (issue # others))
                         \<lparr>loc_file = file,
                          loc_line = getYamlErrorLine env (gm_matter parsedMatter) (firstPathKey issue),
                          loc_column = 0\<rparr>)))"

text \<open>
  One iteration of the loop, for a file that is not served from the cache: read, extract
  the metadata (which updates the memo table) and validate, write the document's
  artifact, update \<open>docs\<close> and the cache. The \<open>throw\<close> leaves the world as it is at that
  point.
\<close>

definition compileFile ::
  "Env \<Rightarrow> 'a GenerateDocsOptions_scheme \<Rightarrow> string \<Rightarrow> string \<Rightarrow> string \<Rightarrow> LoopState \<Rightarrow> World
    \<Rightarrow> (error + LoopState) \<times> World" where
  "compileFile env options definitionDir file hash st w =
     (let ty = opts_type options;
          config = opts_config options;
          w1 = w\<lparr>effects := effects w @ [ReadFile file],
                 matterCache := snd (grayMatter env (matterCache w) (readFile env file))\<rparr>
      in case validateFile env options file (matterCache w) of
           Inl e \<Rightarrow> (Inl e, w1)
         | Inr data \<Rightarrow>
             (let outputFilePath =
                    join env [output_generated (cfg_output config), ty,
                              idToFileName env (relative env definitionDir file) @ ''.json''];
                  w2 = w1\<lparr>effects := effects w1 @ [WriteDocument outputFilePath data],
                          cache := (cache w1)\<lparr>items := (items (cache w1))
                            (file \<mapsto> \<lparr>item_hash = hash, item_type = ty, document = data\<rparr>)\<rparr>\<rparr>
              in (Inr (st\<lparr>docs := obj_set file data (docs st), n_generated := n_generated st + 1\<rparr>),
                  w2)))"

definition processFile ::
  "Env \<Rightarrow> 'a GenerateDocsOptions_scheme \<Rightarrow> string \<Rightarrow> string \<Rightarrow> LoopState \<Rightarrow> World
    \<Rightarrow> (error + LoopState) \<times> World" where
  "processFile env options definitionDir file st w =
     (let hash = stat_mtimeMs env file in
      case items (cache w) file of
        None \<Rightarrow> compileFile env options definitionDir file hash st w
      | Some cacheEntry \<Rightarrow>
          if item_hash cacheEntry \<noteq> hash then compileFile env options definitionDir file hash st w
          else (Inr (st\<lparr>docs := obj_set file (document cacheEntry) (docs st),
                        n_cached := n_cached st + 1\<rparr>), w))"

fun processFiles ::
  "Env \<Rightarrow> 'a GenerateDocsOptions_scheme \<Rightarrow> string \<Rightarrow> string list \<Rightarrow> LoopState \<Rightarrow> World
    \<Rightarrow> (error + LoopState) \<times> World" where
  "processFiles env options definitionDir [] st w = (Inr st, w)"
| "processFiles env options definitionDir (file # files) st w =
     (case processFile env options definitionDir file st w of
        (Inl e, w') \<Rightarrow> (Inl e, w')
      | (Inr st', w') \<Rightarrow> processFiles env options definitionDir files st' w')"

text \<open>The text of the generated import module, from the keys of \<open>docs\<close>.\<close>

definition importModule :: "Env \<Rightarrow> string \<Rightarrow> string \<Rightarrow> string list \<Rightarrow> string" where
  "importModule env ty definitionDir ids =
     js_join [CHR 0x0A]
       ([autogeneratedNote env, []]
        @ map (\<lambda>id. ''import '' @ makeVariableName env id @ '' from '' @ [CHR 0x27] @ ''./''
                     @ idToFileName env (relative env definitionDir id) @ ''.json'' @ [CHR 0x27]
                     @ assertStatement env @ '';'') ids
        @ [[],
           ''export const '' @ getDataVariableName env ty @ '' = ['',
           ''  '' @ js_join ('','' @ [CHR 0x0A] @ ''  '') (map (makeVariableName env) ids) @ '','',
           ''];'',
           []])"

text \<open>The destructuring default \<open>patterns = '**/*.{md,mdoc,mdx}'\<close>.\<close>

definition effectivePatterns :: "ResolvedConfig \<Rightarrow> Patterns" where
  "effectivePatterns config =
     (case patterns config of None \<Rightarrow> Pattern ''**/*.{md,mdoc,mdx}'' | Some p \<Rightarrow> p)"

text \<open>The files \<open>globby\<close> finds for a type: \<open>files\<close> in \<open>generateDocuments\<close>.\<close>

definition discoveredFiles :: "Env \<Rightarrow> 'a GenerateDocsOptions_scheme \<Rightarrow> string list" where
  "discoveredFiles env options =
     globby env (effectivePatterns (opts_config options))
       (join env [contentDirPath (opts_config options), opts_type options])"

definition generateDocuments ::
  "Env \<Rightarrow> 'a GenerateDocsOptions_scheme \<Rightarrow> World \<Rightarrow> (error + GeneratedCount) \<times> World" where
  "generateDocuments env options w =
     (let ty = opts_type options;
          config = opts_config options;
          patterns' = effectivePatterns config
      in if patterns_length patterns' = 0 then (Inl ConfigNoPatternsError, w)
         else
           (let definitionDir = join env [contentDirPath config, ty];
                files = discoveredFiles env options;
                w1 = w\<lparr>effects := effects w @ [Mkdir (join env [output_generated (cfg_output config), ty])]\<rparr>
            in case processFiles env options definitionDir files
                      \<lparr>n_cached = 0, n_generated = 0, docs = []\<rparr> w1 of
                 (Inl e, w2) \<Rightarrow> (Inl e, w2)
               | (Inr st, w2) \<Rightarrow>
                   (Inr \<lparr>cached = n_cached st, generated = n_generated st,
                         total = length (Object_keys (docs st))\<rparr>,
                    w2\<lparr>effects := effects w2 @
                       [WriteCollection (join env [output_generated (cfg_output config), ty, ''index.json''])
                          (Object_values (docs st)),
                        WriteImports (join env [output_generated (cfg_output config), ty, ''index.mjs''])
                          (importModule env ty definitionDir (Object_keys (docs st)))]\<rparr>)))"

section \<open>The orchestrator\<close>

text \<open>The argument \<open>{ ...def, type, config }\<close> of \<open>generateDocuments\<close>.\<close>

definition docsOptions :: "ResolvedConfig \<Rightarrow> string \<Rightarrow> DocumentDefinition \<Rightarrow> GenerateDocsOptions" where
  "docsOptions config ty def =
     \<lparr>schema = schema def, format = format def, opts_type = ty, opts_config = config\<rparr>"

fun generateAll ::
  "Env \<Rightarrow> ResolvedConfig \<Rightarrow> (string \<times> DocumentDefinition) list \<Rightarrow> GeneratedCount jsobject \<Rightarrow> World
    \<Rightarrow> (error + GeneratedCount jsobject) \<times> World" where
  "generateAll env config [] generations w = (Inr generations, w)"
| "generateAll env config ((ty, def) # rest) generations w =
     (case generateDocuments env (docsOptions config ty def) w of
        (Inl e, w') \<Rightarrow> (Inl e, w')
      | (Inr generation, w') \<Rightarrow> generateAll env config rest (obj_set ty generation generations) w')"

text \<open>\<open>reduce\<close> with no initial value: the first element is the accumulator.\<close>

definition sumCounts :: "GeneratedCount list \<Rightarrow> error + GeneratedCount" where
  "sumCounts counts =
     (case counts of
        [] \<Rightarrow> Inl (TypeError ''Reduce of empty array with no initial value'')
      | c # cs \<Rightarrow>
          Inr (foldl (\<lambda>acc count. \<lparr>cached = cached acc + cached count,
                                      generated = generated acc + generated count,
                                      total = total acc + total count\<rparr>) c cs))"

definition generateInner :: "Env \<Rightarrow> ResolvedConfig \<Rightarrow> World \<Rightarrow> (error + unit) \<times> World" where
  "generateInner env config w =
     (case generateAll env config (definitions config) [] w of
        (Inl e, w1) \<Rightarrow> (Inl e, w1)
      | (Inr generations, w1) \<Rightarrow>
          (let w2 = w1\<lparr>effects := effects w1 @ [OutputAssets, CacheSave]\<rparr>
           in case sumCounts (Object_values generations) of
                Inl e \<Rightarrow> (Inl e, w2)
              | Inr s \<Rightarrow> (Inr (), w2\<lparr>effects := effects w2 @ [LogGenerated (total s) (cached s)]\<rparr>)))"

text \<open>
  \<open>generate\<close>, with the configuration that \<open>getConfig\<close> resolved: the output directories,
  the entry files, the initial pass, and in development mode the watcher.
\<close>

definition generate :: "Env \<Rightarrow> GenerationMode \<Rightarrow> ResolvedConfig \<Rightarrow> World \<Rightarrow> (error + unit) \<times> World" where
  "generate env mode config w =
     (let w1 = w\<lparr>effects := effects w @
                  [Mkdir (output_assets (cfg_output config)),
                   Mkdir (output_generated (cfg_output config)),
                   OutputEntryFiles]\<rparr>
      in case generateInner env config w1 of
           (Inl e, w2) \<Rightarrow> (Inl e, w2)
         | (Inr u, w2) \<Rightarrow>
             if mode = Development
             then (Inr (), w2\<lparr>effects := effects w2 @
                            [LogWatching (contentDirPath config),
                             WatcherStart (contentDirPath config # configImports config)]\<rparr>)
             else (Inr (), w2))"

section \<open>The watch handler\<close>

datatype WatchOutcome = Ignored | Restarting | Regenerated

text \<open>
  The handler of \<open>watcher.on('all', ...)\<close>. A change of a configuration file closes the
  watcher and starts \<open>generate\<close> again, which is the outcome \<open>Restarting\<close>; an error of the
  regeneration is caught and logged.
\<close>

definition onWatchEvent ::
  "Env \<Rightarrow> ResolvedConfig \<Rightarrow> EventName \<Rightarrow> string option \<Rightarrow> World \<Rightarrow> WatchOutcome \<times> World" where
  "onWatchEvent env config eventName filename w =
     (if eventName = AddDir \<or> eventName = UnlinkDir then (Ignored, w)
      else case filename of
        None \<Rightarrow> (Ignored, w)
      | Some name \<Rightarrow>
          (let filename' = join env [contentDirPath config, name];
               w1 = w\<lparr>cache := (cache w)\<lparr>uniques :=
                       filter (\<lambda>(key, value). value \<noteq> filename') (uniques (cache w))\<rparr>\<rparr>
           in if filename' \<in> set (configImports config)
              then (Restarting, w1\<lparr>effects := effects w1 @ [LogRestarting, WatcherClose]\<rparr>)
              else
                (let w2 = w1\<lparr>effects := effects w1 @ [LogChanged filename']\<rparr>
                 in case generateInner env config w2 of
                      (Inl e, w3) \<Rightarrow> (Regenerated, w3\<lparr>effects := effects w3 @ [LogWarn e]\<rparr>)
                    | (Inr u, w3) \<Rightarrow> (Regenerated, w3))))"

section \<open>Notions used in the statements\<close>

text \<open>
  A file is served from the cache when its entry exists and the entry's hash is the file's
  fingerprint: the negation of \<open>changed\<close> in the loop.
\<close>

definition cacheHit :: "Env \<Rightarrow> World \<Rightarrow> string \<Rightarrow> bool" where
  "cacheHit env w file =
     (case items (cache w) file of None \<Rightarrow> False | Some e \<Rightarrow> item_hash e = stat_mtimeMs env file)"

text \<open>The document the cache holds for a file (empty when it holds none).\<close>

definition cachedDocument :: "World \<Rightarrow> string \<Rightarrow> frontmatter" where
  "cachedDocument w file = (case items (cache w) file of None \<Rightarrow> [] | Some e \<Rightarrow> document e)"

text \<open>
  A file's metadata block as extracted (the memo table has no part in it), the
  \<open>matter\<close> property of the extraction on a given memo table, and the schema resolved for
  the file: \<open>frontmatter\<close>, \<open>parsedMatter.matter\<close> and \<open>schema\<close> in the loop.
\<close>

definition frontmatterOf :: "Env \<Rightarrow> string \<Rightarrow> frontmatter" where
  "frontmatterOf env file = gm_data (fst (grayMatter env {} (readFile env file)))"

definition rawMatterOf :: "Env \<Rightarrow> string set \<Rightarrow> string \<Rightarrow> string option" where
  "rawMatterOf env memo file = gm_matter (fst (grayMatter env memo (readFile env file)))"

definition schemaFor :: "Env \<Rightarrow> 'a GenerateDocsOptions_scheme \<Rightarrow> string \<Rightarrow> Schema option" where
  "schemaFor env options file =
     resolveSchema
       \<lparr>rs_type = opts_type options, rs_schema = schema options, rs_path = file,
        rs_contents = readFile env file, rs_frontmatter = frontmatterOf env file,
        rs_config = opts_config options\<rparr>"

text \<open>A file the pass validates and whose validation fails.\<close>

definition failsValidation :: "Env \<Rightarrow> 'a GenerateDocsOptions_scheme \<Rightarrow> World \<Rightarrow> string \<Rightarrow> bool" where
  "failsValidation env options w file \<longleftrightarrow>
     \<not> cacheHit env w file \<and> isl (validateFile env options file (matterCache w))"

text \<open>The directory of a type's content, and a path in the directory of its artifacts.\<close>

definition definitionDirOf :: "Env \<Rightarrow> 'a GenerateDocsOptions_scheme \<Rightarrow> string" where
  "definitionDirOf env options = join env [contentDirPath (opts_config options), opts_type options]"

definition generatedPath :: "Env \<Rightarrow> 'a GenerateDocsOptions_scheme \<Rightarrow> string \<Rightarrow> string" where
  "generatedPath env options name =
     join env [output_generated (cfg_output (opts_config options)), opts_type options, name]"

definition generatedDir :: "Env \<Rightarrow> 'a GenerateDocsOptions_scheme \<Rightarrow> string" where
  "generatedDir env options =
     join env [output_generated (cfg_output (opts_config options)), opts_type options]"

text \<open>The effects of one loop iteration: reading a content file, writing its artifact.\<close>

fun isDocumentEffect :: "Effect \<Rightarrow> bool" where
  "isDocumentEffect (ReadFile f) = True"
| "isDocumentEffect (WriteDocument p d) = True"
| "isDocumentEffect x = False"

text \<open>What a pass appended to the trace of effects.\<close>

definition newEffects :: "World \<Rightarrow> World \<Rightarrow> Effect list" where
  "newEffects w w' = drop (length (effects w)) (effects w')"

fun isCollectionWrite :: "Effect \<Rightarrow> bool" where
  "isCollectionWrite (WriteCollection p ds) = True"
| "isCollectionWrite (WriteImports p t) = True"
| "isCollectionWrite x = False"

fun readFiles :: "Effect list \<Rightarrow> string list" where
  "readFiles [] = []"
| "readFiles (ReadFile f # xs) = f # readFiles xs"
| "readFiles (x # xs) = readFiles xs"

text \<open>POSIX \<open>path.isAbsolute\<close>: what \<open>globby\<close> returns with \<open>absolute: true\<close>.\<close>

definition isAbsolute :: "string \<Rightarrow> bool" where
  "isAbsolute p = (case p of [] \<Rightarrow> False | c # cs \<Rightarrow> c = CHR ''/'')"

text \<open>The files of a list of declared types, and of all the types of a configuration.\<close>

definition discoveredIn ::
  "Env \<Rightarrow> ResolvedConfig \<Rightarrow> (string \<times> DocumentDefinition) list \<Rightarrow> string list" where
  "discoveredIn env config defs =
     concat (map (\<lambda>(ty, def). discoveredFiles env (docsOptions config ty def)) defs)"

definition allDiscovered :: "Env \<Rightarrow> ResolvedConfig \<Rightarrow> string list" where
  "allDiscovered env config = discoveredIn env config (definitions config)"

text \<open>The step of the watch handler that deletes from \<open>cache.uniques\<close>.\<close>

definition withoutUniquesOf :: "string \<Rightarrow> World \<Rightarrow> World" where
  "withoutUniquesOf path w =
     w\<lparr>cache := (cache w)\<lparr>uniques := filter (\<lambda>(key, value). value \<noteq> path) (uniques (cache w))\<rparr>\<rparr>"

text \<open>The absolute path of a watch event: \<open>join(contentDirPath, filename)\<close>.\<close>

definition changedPath :: "Env \<Rightarrow> ResolvedConfig \<Rightarrow> string \<Rightarrow> string" where
  "changedPath env config name = join env [contentDirPath config, name]"

text \<open>
  What a pass can change: a cache entry changes, and a file is read, only for a discovered
  file whose entry was missing or did not match.
\<close>

definition touchesOnly :: "Env \<Rightarrow> string list \<Rightarrow> World \<Rightarrow> World \<Rightarrow> bool" where
  "touchesOnly env files w w' \<longleftrightarrow>
     uniques (cache w') = uniques (cache w)
     \<and> (\<forall>g. g \<notin> set files \<or> cacheHit env w g \<longrightarrow> items (cache w') g = items (cache w) g)
     \<and> (\<exists>new. effects w' = effects w @ new
            \<and> set (readFiles new) \<subseteq> set files \<inter> {f. \<not> cacheHit env w f})"

text \<open>A content file edited on disk: a new modification time and new contents.\<close>

definition modifyFile :: "Env \<Rightarrow> string \<Rightarrow> string \<Rightarrow> string \<Rightarrow> Env" where
  "modifyFile env file mtime contents =
     env\<lparr>stat_mtimeMs := (stat_mtimeMs env)(file := mtime),
         readFile := (readFile env)(file := contents)\<rparr>"

section \<open>A small site, for the concrete instances\<close>

text \<open>A schema: \<open>title\<close> is required and is a string; the parsed output adds a \<open>slug\<close>.\<close>

definition exSchema :: Schema where
  "exSchema fm =
     (case map_of fm ''title'' of
        None \<Rightarrow> ParseFailure \<lparr>issue_path = [''title''], issue_message = ''Required''\<rparr> []
      | Some (JStr t) \<Rightarrow> ParseSuccess (fm @ [(''slug'', JStr t)])
      | Some v \<Rightarrow>
          ParseFailure \<lparr>issue_path = [''title''], issue_message = ''Expected string''\<rparr> [])"

text \<open>
  An instance of \<open>getYamlErrorLine\<close>: the number of the first line of the raw text that
  starts with the key, and 0 when there is no text or no such line.
\<close>

fun splitOn :: "char \<Rightarrow> string \<Rightarrow> string list" where
  "splitOn c [] = [[]]"
| "splitOn c (x # xs) =
     (if x = c then [] # splitOn c xs
      else (case splitOn c xs of [] \<Rightarrow> [[x]] | l # ls \<Rightarrow> (x # l) # ls))"

fun firstIndex :: "('a \<Rightarrow> bool) \<Rightarrow> 'a list \<Rightarrow> nat option" where
  "firstIndex P [] = None"
| "firstIndex P (x # xs) = (if P x then Some 0 else map_option Suc (firstIndex P xs))"

definition exYamlErrorLine :: "string option \<Rightarrow> string \<Rightarrow> int" where
  "exYamlErrorLine rawData key =
     (case rawData of
        None \<Rightarrow> 0
      | Some text \<Rightarrow>
          if text = [] then 0
          else (case firstIndex (\<lambda>l. take (length key) l = key) (splitOn (CHR 0x0A) text) of
                  None \<Rightarrow> 0
                | Some i \<Rightarrow> int i + 1))"

text \<open>An instance of the error message: the type, the path, and each issue's path and text.\<close>

definition exErrorMessage :: "string \<Rightarrow> string \<Rightarrow> ZodIssue list \<Rightarrow> string" where
  "exErrorMessage ty p issues =
     ty @ '' -> '' @ p @ '' frontmatter does not match schema: ''
     @ js_join ''; '' (map (\<lambda>i. js_join ''.'' (issue_path i) @ '': '' @ issue_message i) issues)"

text \<open>A file whose \<open>title\<close>, on the third line of the raw front-matter block, is a number.\<close>

definition exInvalidContents :: string where
  "exInvalidContents = js_join [CHR 0x0A] [''---'', ''draft: true'', ''title: 42'', ''---'', ''Hello'']"

definition exEnv :: Env where
  "exEnv =
     \<lparr>stat_mtimeMs = (\<lambda>f. if f = ''/site/content/posts/a.md'' then ''1700000000000.5'' else ''1700000000001''),
      readFile = (\<lambda>f. if f = ''/site/content/posts/a.md'' then ''A'' else ''B''),
      globby = (\<lambda>p cwd. if cwd = ''/site/content/posts''
                          then [''/site/content/posts/a.md'', ''/site/content/posts/b.md''] else []),
      parseMatter = (\<lambda>s. if s = exInvalidContents
                         then \<lparr>pm_data = [(''draft'', JBool True), (''title'', JNum 42)],
                               pm_matter = js_join [CHR 0x0A] [[], ''draft: true'', ''title: 42'']\<rparr>
                         else \<lparr>pm_data = [(''title'', JStr s)], pm_matter = s\<rparr>),
      join = js_join ''/'',
      relative = (\<lambda>from to. if take (length from + 1) to = from @ ''/''
                              then drop (length from + 1) to else to),
      getYamlErrorLine = exYamlErrorLine,
      frontmatterErrorMessage = exErrorMessage,
      idToFileName = (\<lambda>x. x),
      makeVariableName = (\<lambda>x. filter (\<lambda>c. c \<noteq> CHR ''/'' \<and> c \<noteq> CHR ''.'') x),
      getDataVariableName = (\<lambda>x. x),
      assertStatement = '' with { type: json }'',
      autogeneratedNote = ''// NOTE This file is auto-generated.'',
      bundle' = (\<lambda>p. \<lparr>br_code = bp_contents p, br_errors = None\<rparr>)\<rparr>"

definition exConfig :: ResolvedConfig where
  "exConfig =
     \<lparr>configPath = ''/site/markdownlayer.config.ts'',
      contentDirPath = ''/site/content'',
      patterns = None,
      cfg_output = \<lparr>output_assets = ''/site/.markdownlayer/assets'',
                    output_generated = ''/site/.markdownlayer/generated''\<rparr>,
      definitions = [(''posts'', \<lparr>schema = Some (Static exSchema), format = None\<rparr>)],
      mdAsMarkdoc = None,
      configImports = [''/site/markdownlayer.config.ts'']\<rparr>"

definition exOptions :: GenerateDocsOptions where
  "exOptions = docsOptions exConfig ''posts'' \<lparr>schema = Some (Static exSchema), format = None\<rparr>"

text \<open>The site after \<open>posts/b.md\<close> was deleted.\<close>

definition exEnvDeleted :: Env where
  "exEnvDeleted =
     exEnv\<lparr>globby := (\<lambda>p cwd. if cwd = ''/site/content/posts''
                                  then [''/site/content/posts/a.md''] else [])\<rparr>"

definition exWorld :: World where
  "exWorld = \<lparr>cache = \<lparr>items = Map.empty, uniques = [(''a-title'', ''/site/content/posts/a.md'')]\<rparr>,
              effects = [], matterCache = {}\<rparr>"


text \<open>
  The site in development mode after \<open>posts/b.md\<close> was edited into a file that fails
  validation: the world the initial pass of \<open>generate\<close> left before the edit, and the world
  after the handler's regeneration for the edit.
\<close>

definition exEnvInvalid :: Env where
  "exEnvInvalid = modifyFile exEnv ''/site/content/posts/b.md'' ''1700000009999'' exInvalidContents"

definition exWatched :: World where
  "exWatched = snd (generate exEnv Development exConfig exWorld)"

definition exFirstReport :: World where
  "exFirstReport = snd (onWatchEvent exEnvInvalid exConfig Change (Some ''posts/b.md'') exWatched)"

section \<open>One iteration of the loop\<close>

lemma cacheHit_iff:
  "cacheHit env w f \<longleftrightarrow> (\<exists>e. items (cache w) f = Some e \<and> item_hash e = stat_mtimeMs env f)"
  by (simp add: cacheHit_def split: option.splits)

lemma cacheHit_cong: "items (cache w') f = items (cache w) f \<Longrightarrow> cacheHit env w' f = cacheHit env w f"
  by (simp add: cacheHit_def)

lemma cachedDocument_cong:
  "items (cache w') f = items (cache w) f \<Longrightarrow> cachedDocument w' f = cachedDocument w f"
  by (simp add: cachedDocument_def)

text \<open>
  The memo table of the metadata extractor decides only whether the result carries the
  raw block: the data, hence the schema resolved, the outcome of validation and the
  validated record, are the same on every table.
\<close>

lemma grayMatter_data: "gm_data (fst (grayMatter env memo input)) = gm_data (fst (grayMatter env {} input))"
  by (simp add: grayMatter_def)

lemma grayMatter_memo: "snd (grayMatter env memo input) = (if input = [] then memo else insert input memo)"
  by (auto simp: grayMatter_def)

lemma validateFile_Inr_memo:
  "validateFile env options f memo = Inr d \<longleftrightarrow> validateFile env options f memo' = Inr d"
  unfolding validateFile_def Let_def grayMatter_data [of env memo] grayMatter_data [of env memo']
  by (simp split: option.splits SafeParseReturn.splits)

lemma validateFile_isl_memo:
  "isl (validateFile env options f memo) \<longleftrightarrow> isl (validateFile env options f memo')"
  unfolding validateFile_def Let_def grayMatter_data [of env memo] grayMatter_data [of env memo']
  by (simp split: option.splits SafeParseReturn.splits)

lemma compileFile_Inl:
  "validateFile env options f (matterCache w) = Inl e \<Longrightarrow>
   compileFile env options dir f h st w =
     (Inl e, w\<lparr>effects := effects w @ [ReadFile f],
              matterCache := snd (grayMatter env (matterCache w) (readFile env f))\<rparr>)"
  by (simp add: compileFile_def)

lemma compileFile_Inr:
  "validateFile env options f (matterCache w) = Inr d \<Longrightarrow>
   compileFile env options dir f h st w =
     (Inr (st\<lparr>docs := obj_set f d (docs st), n_generated := n_generated st + 1\<rparr>),
      w\<lparr>effects := effects w @
           [ReadFile f,
            WriteDocument (generatedPath env options (idToFileName env (relative env dir f) @ ''.json'')) d],
        cache := (cache w)\<lparr>items := (items (cache w))
          (f \<mapsto> \<lparr>item_hash = h, item_type = opts_type options, document = d\<rparr>)\<rparr>,
        matterCache := snd (grayMatter env (matterCache w) (readFile env f))\<rparr>)"
  by (simp add: compileFile_def Let_def generatedPath_def)

lemma processFile_hit:
  "cacheHit env w f \<Longrightarrow>
   processFile env options dir f st w =
     (Inr (st\<lparr>docs := obj_set f (cachedDocument w f) (docs st), n_cached := n_cached st + 1\<rparr>), w)"
  by (auto simp: cacheHit_def cachedDocument_def processFile_def split: option.splits)

lemma processFile_miss:
  "\<not> cacheHit env w f \<Longrightarrow>
   processFile env options dir f st w = compileFile env options dir f (stat_mtimeMs env f) st w"
  by (auto simp: cacheHit_def processFile_def split: option.splits)

lemma processFile_invalid:
  "\<not> cacheHit env w f \<Longrightarrow> validateFile env options f (matterCache w) = Inl e \<Longrightarrow>
   processFile env options dir f st w =
     (Inl e, w\<lparr>effects := effects w @ [ReadFile f],
              matterCache := snd (grayMatter env (matterCache w) (readFile env f))\<rparr>)"
  by (simp add: processFile_miss compileFile_Inl)

lemma processFile_valid:
  "\<not> cacheHit env w f \<Longrightarrow> validateFile env options f (matterCache w) = Inr d \<Longrightarrow>
   processFile env options dir f st w =
     (Inr (st\<lparr>docs := obj_set f d (docs st), n_generated := n_generated st + 1\<rparr>),
      w\<lparr>effects := effects w @
           [ReadFile f,
            WriteDocument (generatedPath env options (idToFileName env (relative env dir f) @ ''.json'')) d],
        cache := (cache w)\<lparr>items := (items (cache w))
          (f \<mapsto> \<lparr>item_hash = stat_mtimeMs env f, item_type = opts_type options, document = d\<rparr>)\<rparr>,
        matterCache := snd (grayMatter env (matterCache w) (readFile env f))\<rparr>)"
  by (simp add: processFile_miss compileFile_Inr)

lemma processFile_frame:
  assumes "processFile env options dir f st w = (r, w')"
  shows "uniques (cache w') = uniques (cache w)"
    and "g \<noteq> f \<Longrightarrow> items (cache w') g = items (cache w) g"
    and "cacheHit env w g \<Longrightarrow> items (cache w') g = items (cache w) g"
    and "\<exists>new. effects w' = effects w @ new \<and> list_all isDocumentEffect new
           \<and> set (readFiles new) \<subseteq> {f} \<inter> {f. \<not> cacheHit env w f}"
proof -
  consider (hit) "cacheHit env w f"
    | (invalid) e where "\<not> cacheHit env w f" "validateFile env options f (matterCache w) = Inl e"
    | (valid) d where "\<not> cacheHit env w f" "validateFile env options f (matterCache w) = Inr d"
    by (cases "validateFile env options f (matterCache w)") auto
  then have "uniques (cache w') = uniques (cache w)
    \<and> (g \<noteq> f \<longrightarrow> items (cache w') g = items (cache w) g)
    \<and> (cacheHit env w g \<longrightarrow> items (cache w') g = items (cache w) g)
    \<and> (\<exists>new. effects w' = effects w @ new \<and> list_all isDocumentEffect new
           \<and> set (readFiles new) \<subseteq> {f} \<inter> {f. \<not> cacheHit env w f})"
  proof cases
    case hit
    then show ?thesis using assms by (simp add: processFile_hit)
  next
    case invalid
    then show ?thesis using assms by (auto simp: processFile_invalid)
  next
    case valid
    then show ?thesis using assms by (auto simp: processFile_valid)
  qed
  then show "uniques (cache w') = uniques (cache w)"
    and "g \<noteq> f \<Longrightarrow> items (cache w') g = items (cache w) g"
    and "cacheHit env w g \<Longrightarrow> items (cache w') g = items (cache w) g"
    and "\<exists>new. effects w' = effects w @ new \<and> list_all isDocumentEffect new
           \<and> set (readFiles new) \<subseteq> {f} \<inter> {f. \<not> cacheHit env w f}"
    by blast+
qed

lemma processFile_success:
  assumes "processFile env options dir f st w = (Inr st', w')"
  shows "cacheHit env w' f"
    and "docs st' = obj_set f (cachedDocument w' f) (docs st)"
    and "n_cached st' + n_generated st' = n_cached st + n_generated st + 1"
proof -
  consider (hit) "cacheHit env w f"
    | (invalid) e where "\<not> cacheHit env w f" "validateFile env options f (matterCache w) = Inl e"
    | (valid) d where "\<not> cacheHit env w f" "validateFile env options f (matterCache w) = Inr d"
    by (cases "validateFile env options f (matterCache w)") auto
  then have "cacheHit env w' f \<and> docs st' = obj_set f (cachedDocument w' f) (docs st)
     \<and> n_cached st' + n_generated st' = n_cached st + n_generated st + 1"
  proof cases
    case hit
    then show ?thesis using assms by (auto simp: processFile_hit)
  next
    case invalid
    then show ?thesis using assms by (simp add: processFile_invalid)
  next
    case valid
    then show ?thesis using assms by (auto simp: processFile_valid cacheHit_def cachedDocument_def)
  qed
  then show "cacheHit env w' f"
    and "docs st' = obj_set f (cachedDocument w' f) (docs st)"
    and "n_cached st' + n_generated st' = n_cached st + n_generated st + 1"
    by blast+
qed

section \<open>The loop over the discovered files\<close>

lemma readFiles_append: "readFiles (xs @ ys) = readFiles xs @ readFiles ys"
  by (induction xs rule: readFiles.induct) simp_all

lemma processFiles_append:
  "processFiles env options dir (xs @ ys) st w =
     (case processFiles env options dir xs st w of
        (Inl e, w') \<Rightarrow> (Inl e, w')
      | (Inr st', w') \<Rightarrow> processFiles env options dir ys st' w')"
  by (induction xs arbitrary: st w) (auto split: prod.splits sum.splits)

lemma processFiles_frame:
  "processFiles env options dir files st w = (r, w') \<Longrightarrow>
     uniques (cache w') = uniques (cache w)
     \<and> (\<forall>g. g \<notin> set files \<longrightarrow> items (cache w') g = items (cache w) g)
     \<and> (\<forall>g. cacheHit env w g \<longrightarrow> items (cache w') g = items (cache w) g)
     \<and> (\<exists>new. effects w' = effects w @ new \<and> list_all isDocumentEffect new
           \<and> set (readFiles new) \<subseteq> set files \<inter> {f. \<not> cacheHit env w f})"
proof (induction files arbitrary: st w)
  case Nil
  then show ?case by simp
next
  case (Cons f files)
  obtain r1 w1 where step: "processFile env options dir f st w = (r1, w1)"
    by (cases "processFile env options dir f st w")
  note fr = processFile_frame [OF step]
  from fr(4) obtain new1 where new1: "effects w1 = effects w @ new1" "list_all isDocumentEffect new1"
    "set (readFiles new1) \<subseteq> {f} \<inter> {f. \<not> cacheHit env w f}" by blast
  show ?case
  proof (cases r1)
    case (Inl e)
    with step Cons.prems have "w' = w1" by simp
    with fr new1 show ?thesis by auto
  next
    case (Inr st1)
    with step Cons.prems have rest: "processFiles env options dir files st1 w1 = (r, w')" by simp
    from Cons.IH [OF rest] obtain new2 where
      u: "uniques (cache w') = uniques (cache w1)" and
      out: "\<forall>g. g \<notin> set files \<longrightarrow> items (cache w') g = items (cache w1) g" and
      stable: "\<forall>g. cacheHit env w1 g \<longrightarrow> items (cache w') g = items (cache w1) g" and
      new2: "effects w' = effects w1 @ new2" "list_all isDocumentEffect new2"
        "set (readFiles new2) \<subseteq> set files \<inter> {f. \<not> cacheHit env w1 f}"
      by blast
    have keep: "cacheHit env w1 g" if "cacheHit env w g" for g
      using that fr(3) [of g] by (simp add: cacheHit_def)
    have a: "uniques (cache w') = uniques (cache w)" using u fr(1) by simp
    have b: "\<forall>g. g \<notin> set (f # files) \<longrightarrow> items (cache w') g = items (cache w) g"
      using out fr(2) by auto
    have c: "\<forall>g. cacheHit env w g \<longrightarrow> items (cache w') g = items (cache w) g"
      using stable keep fr(3) by auto
    have d: "effects w' = effects w @ (new1 @ new2)" using new1(1) new2(1) by simp
    have e: "list_all isDocumentEffect (new1 @ new2)" using new1(2) new2(2) by simp
    have f: "set (readFiles (new1 @ new2)) \<subseteq> set (f # files) \<inter> {f. \<not> cacheHit env w f}"
      using new1(3) new2(3) keep by (auto simp: readFiles_append)
    from a b c d e f show ?thesis by blast
  qed
qed

lemma processFiles_success:
  "processFiles env options dir files st w = (Inr st', w') \<Longrightarrow>
     (\<forall>f\<in>set files. cacheHit env w' f)
     \<and> docs st' = foldl (\<lambda>d f. obj_set f (cachedDocument w' f) d) (docs st) files
     \<and> n_cached st' + n_generated st' = n_cached st + n_generated st + length files"
proof (induction files arbitrary: st w)
  case Nil
  then show ?case by simp
next
  case (Cons f files)
  obtain r1 w1 where step: "processFile env options dir f st w = (r1, w1)"
    by (cases "processFile env options dir f st w")
  with Cons.prems obtain st1 where r1: "r1 = Inr st1" by (cases r1) auto
  with step Cons.prems have rest: "processFiles env options dir files st1 w1 = (Inr st', w')" by simp
  note s = processFile_success [OF step [unfolded r1]]
  from processFiles_frame [OF rest] s(1) have same: "items (cache w') f = items (cache w1) f" by blast
  from Cons.IH [OF rest] have ih:
    "\<forall>f\<in>set files. cacheHit env w' f"
    "docs st' = foldl (\<lambda>d f. obj_set f (cachedDocument w' f) d) (docs st1) files"
    "n_cached st' + n_generated st' = n_cached st1 + n_generated st1 + length files"
    by blast+
  have "cacheHit env w' f" using s(1) same by (simp add: cacheHit_def)
  moreover have "cachedDocument w1 f = cachedDocument w' f" using same by (simp add: cachedDocument_def)
  ultimately show ?case using ih s(2,3) by simp
qed

lemma processFiles_all_hits:
  "\<forall>f\<in>set files. cacheHit env w f \<Longrightarrow>
   processFiles env options dir files st w =
     (Inr (st\<lparr>docs := foldl (\<lambda>d f. obj_set f (cachedDocument w f) d) (docs st) files,
              n_cached := n_cached st + length files\<rparr>), w)"
  by (induction files arbitrary: st) (simp_all add: processFile_hit)

lemma processFiles_no_failure:
  "\<forall>f\<in>set files. \<not> failsValidation env options w f \<Longrightarrow>
   \<exists>st' w'. processFiles env options dir files st w = (Inr st', w')"
proof (induction files arbitrary: st w)
  case Nil
  then show ?case by simp
next
  case (Cons f files)
  from Cons.prems have "cacheHit env w f \<or> (\<exists>d. validateFile env options f (matterCache w) = Inr d)"
    by (cases "validateFile env options f (matterCache w)") (auto simp: failsValidation_def)
  then obtain st1 w1 where step: "processFile env options dir f st w = (Inr st1, w1)"
    by (cases "cacheHit env w f") (auto simp: processFile_hit processFile_valid)
  have "\<not> failsValidation env options w1 g" if "g \<in> set files" for g
  proof -
    from that Cons.prems have "\<not> failsValidation env options w g" by simp
    moreover have "cacheHit env w1 g" if "cacheHit env w g"
      using that processFile_frame(3) [OF step, of g] by (simp add: cacheHit_def)
    ultimately show ?thesis
      using validateFile_isl_memo [of env options g "matterCache w1" "matterCache w"]
      by (auto simp: failsValidation_def)
  qed
  then have "\<forall>g\<in>set files. \<not> failsValidation env options w1 g" by blast
  from Cons.IH [OF this] step show ?case by simp
qed

section \<open>Property order of objects; the documents of a completed loop\<close>

lemma obj_set_fresh: "k \<notin> fst ` set d \<Longrightarrow> obj_set k v d = d @ [(k, v)]"
  by (induction d) auto

lemma foldl_obj_set_distinct:
  "distinct ks \<Longrightarrow> set ks \<inter> fst ` set d = {} \<Longrightarrow>
   foldl (\<lambda>d k. obj_set k (g k) d) d ks = d @ map (\<lambda>k. (k, g k)) ks"
proof (induction ks arbitrary: d)
  case Nil
  then show ?case by simp
next
  case (Cons k ks)
  from Cons.prems have fresh: "k \<notin> fst ` set d" by auto
  have "set ks \<inter> fst ` set (d @ [(k, g k)]) = {}" using Cons.prems by auto
  with Cons.IH [of "d @ [(k, g k)]"] Cons.prems fresh show ?case
    by (simp add: obj_set_fresh)
qed

lemma length_ownEntries: "length (ownEntries d) = length d"
  by (simp add: ownEntries_def sum_length_filter_compl case_prod_unfold)

lemma length_Object_keys: "length (Object_keys d) = length d"
  by (simp add: Object_keys_def length_ownEntries)

lemma ownEntries_no_index: "\<forall>k\<in>fst ` set d. \<not> isArrayIndex k \<Longrightarrow> ownEntries d = d"
proof -
  assume a: "\<forall>k\<in>fst ` set d. \<not> isArrayIndex k"
  then have "filter (\<lambda>(k, v). isArrayIndex k) d = []"
    by (auto simp: filter_empty_conv)
  moreover from a have "filter (\<lambda>(k, v). \<not> isArrayIndex k) d = d"
    by (auto simp: filter_id_conv)
  ultimately show ?thesis by (simp add: ownEntries_def)
qed

lemma isAbsolute_not_index: "isAbsolute p \<Longrightarrow> \<not> isArrayIndex p"
  by (cases p) (auto simp: isAbsolute_def isArrayIndex_def)

lemma Object_keys_absolute:
  "\<forall>k\<in>set ks. isAbsolute k \<Longrightarrow> Object_keys (map (\<lambda>k. (k, g k)) ks) = ks"
proof -
  assume "\<forall>k\<in>set ks. isAbsolute k"
  then have "\<forall>k\<in>fst ` set (map (\<lambda>k. (k, g k)) ks). \<not> isArrayIndex k"
    by (auto simp: isAbsolute_not_index)
  then show ?thesis by (simp add: Object_keys_def ownEntries_no_index comp_def)
qed

lemma Object_values_absolute:
  "\<forall>k\<in>set ks. isAbsolute k \<Longrightarrow> Object_values (map (\<lambda>k. (k, g k)) ks) = map g ks"
proof -
  assume "\<forall>k\<in>set ks. isAbsolute k"
  then have "\<forall>k\<in>fst ` set (map (\<lambda>k. (k, g k)) ks). \<not> isArrayIndex k"
    by (auto simp: isAbsolute_not_index)
  then show ?thesis by (simp add: Object_values_def ownEntries_no_index comp_def)
qed

lemma processFiles_miss_document:
  "processFiles env options dir files st w = (Inr st', w') \<Longrightarrow> f \<in> set files \<Longrightarrow>
   \<not> cacheHit env w f \<Longrightarrow> validateFile env options f memo = Inr (cachedDocument w' f)"
proof (induction files arbitrary: st w)
  case Nil
  then show ?case by simp
next
  case (Cons g files)
  obtain r1 w1 where step: "processFile env options dir g st w = (r1, w1)"
    by (cases "processFile env options dir g st w")
  with Cons.prems obtain st1 where r1: "r1 = Inr st1" by (cases r1) auto
  with step Cons.prems have rest: "processFiles env options dir files st1 w1 = (Inr st', w')" by simp
  show ?case
  proof (cases "g = f")
    case True
    from Cons.prems(3) True step r1 obtain d where
      d: "validateFile env options f (matterCache w) = Inr d" and w1: "cachedDocument w1 f = d"
      by (cases "validateFile env options f (matterCache w)")
         (auto simp: processFile_invalid processFile_valid cachedDocument_def)
    from d have d': "validateFile env options f memo = Inr d"
      by (simp add: validateFile_Inr_memo [of env options f "matterCache w" d memo])
    from processFile_success(1) [OF step [unfolded r1]] True have "cacheHit env w1 f" by simp
    with processFiles_frame [OF rest] have "items (cache w') f = items (cache w1) f" by blast
    then have "cachedDocument w' f = cachedDocument w1 f" by (simp add: cachedDocument_def)
    with d' w1 show ?thesis by simp
  next
    case False
    with processFile_frame(2) [OF step, of f] have "items (cache w1) f = items (cache w) f" by simp
    with Cons.prems(3) have "\<not> cacheHit env w1 f" by (simp add: cacheHit_def)
    moreover from False Cons.prems(2) have "f \<in> set files" by simp
    ultimately show ?thesis using Cons.IH [OF rest] by blast
  qed
qed

section \<open>The processor and the pass as a whole\<close>

lemma generateDocuments_nonempty:
  "patterns_length (effectivePatterns (opts_config options)) \<noteq> 0 \<Longrightarrow>
   generateDocuments env options w =
     (case processFiles env options (definitionDirOf env options) (discoveredFiles env options)
             \<lparr>n_cached = 0, n_generated = 0, docs = []\<rparr>
             (w\<lparr>effects := effects w @ [Mkdir (generatedDir env options)]\<rparr>) of
        (Inl e, w2) \<Rightarrow> (Inl e, w2)
      | (Inr st, w2) \<Rightarrow>
          (Inr \<lparr>cached = n_cached st, generated = n_generated st, total = length (docs st)\<rparr>,
           w2\<lparr>effects := effects w2 @
              [WriteCollection (generatedPath env options ''index.json'') (Object_values (docs st)),
               WriteImports (generatedPath env options ''index.mjs'')
                 (importModule env (opts_type options) (definitionDirOf env options)
                    (Object_keys (docs st)))]\<rparr>))"
  by (simp add: generateDocuments_def Let_def definitionDirOf_def generatedPath_def generatedDir_def
      length_Object_keys split: prod.splits sum.splits)

lemma generateDocuments_empty:
  "patterns_length (effectivePatterns (opts_config options)) = 0 \<Longrightarrow>
   generateDocuments env options w = (Inl ConfigNoPatternsError, w)"
  by (simp add: generateDocuments_def)

lemma generateAll_abort:
  "generateDocuments env (docsOptions config ty def) w = (Inl e, w') \<Longrightarrow>
   generateAll env config ((ty, def) # rest) gens w = (Inl e, w')"
  by simp

text \<open>
  C8. With an empty pattern list (\<open>patterns.length === 0\<close>, the list being the
  configuration's), the processor throws the configuration error and leaves the world as
  it found it, whatever the file system holds: no directory is made and no file is
  enumerated or read. The pass and the run abort with that error at the first declared
  type.
\<close>

theorem empty_patterns_configuration_error:
  assumes "patterns config = Some p" and "patterns_length p = 0"
  shows "(opts_config options = config \<longrightarrow>
            generateDocuments env options w = (Inl ConfigNoPatternsError, w))
       \<and> (definitions config \<noteq> [] \<longrightarrow>
            generateInner env config w = (Inl ConfigNoPatternsError, w)
            \<and> generate env mode config w =
                (Inl ConfigNoPatternsError,
                 w\<lparr>effects := effects w @
                      [Mkdir (output_assets (cfg_output config)),
                       Mkdir (output_generated (cfg_output config)), OutputEntryFiles]\<rparr>))"
proof -
  have eff: "patterns_length (effectivePatterns config) = 0"
    using assms by (simp add: effectivePatterns_def)
  have docs: "generateDocuments env options w = (Inl ConfigNoPatternsError, w)"
    if "opts_config options = config"
    using that eff by (simp add: generateDocuments_empty)
  have inner: "generateInner env config v = (Inl ConfigNoPatternsError, v)"
    if "definitions config \<noteq> []" for v
  proof -
    from that obtain ty def rest where d: "definitions config = (ty, def) # rest"
      by (cases "definitions config") auto
    have "generateDocuments env (docsOptions config ty def) v = (Inl ConfigNoPatternsError, v)"
      using eff by (simp add: generateDocuments_empty docsOptions_def)
    then show ?thesis by (simp add: generateInner_def d)
  qed
  show ?thesis using docs inner by (simp add: generate_def)
qed

theorem empty_patterns_configuration_error_witness:
  "generateDocuments exEnv (exOptions\<lparr>opts_config := exConfig\<lparr>patterns := Some (PatternList [])\<rparr>\<rparr>) exWorld
     = (Inl ConfigNoPatternsError, exWorld)
   \<and> generateInner exEnv (exConfig\<lparr>patterns := Some (PatternList [])\<rparr>) exWorld
     = (Inl ConfigNoPatternsError, exWorld)"
proof -
  have a: "patterns (exConfig\<lparr>patterns := Some (PatternList [])\<rparr>) = Some (PatternList [])" by simp
  have b: "patterns_length (PatternList []) = 0" by simp
  have c: "definitions (exConfig\<lparr>patterns := Some (PatternList [])\<rparr>) \<noteq> []"
    by (simp add: exConfig_def)
  from empty_patterns_configuration_error [OF a b,
      of "exOptions\<lparr>opts_config := exConfig\<lparr>patterns := Some (PatternList [])\<rparr>\<rparr>" exEnv exWorld] c
  show ?thesis by simp
qed

lemma obj_set_nonempty: "obj_set k v d \<noteq> []"
  by (cases d) (auto split: if_splits)

lemma generateAll_nonempty:
  "generateAll env config defs gens w = (Inr gens', w') \<Longrightarrow> defs \<noteq> [] \<or> gens \<noteq> [] \<Longrightarrow>
   gens' \<noteq> []"
proof (induction defs arbitrary: gens w)
  case Nil
  then show ?case by simp
next
  case (Cons d defs)
  obtain ty def where d: "d = (ty, def)" by (cases d)
  from Cons.prems(1) d obtain g w1 where
    "generateDocuments env (docsOptions config ty def) w = (Inr g, w1)"
    "generateAll env config defs (obj_set ty g gens) w1 = (Inr gens', w')"
    by (auto split: prod.splits sum.splits)
  with Cons.IH [of "obj_set ty g gens" w1] show ?case by (simp add: obj_set_nonempty)
qed

lemma validateFile_error:
  "validateFile env options f memo = Inl e \<Longrightarrow> \<exists>msg loc. e = InvalidDocumentFrontmatterError msg loc"
  by (auto simp: validateFile_def Let_def split: option.splits SafeParseReturn.splits)

lemma processFiles_error:
  "processFiles env options dir files st w = (Inl e, w') \<Longrightarrow>
   \<exists>msg loc. e = InvalidDocumentFrontmatterError msg loc"
proof (induction files arbitrary: st w)
  case Nil
  then show ?case by simp
next
  case (Cons f files)
  show ?case
  proof (cases "processFile env options dir f st w")
    case (Pair r1 w1)
    show ?thesis
    proof (cases r1)
      case (Inl e1)
      with Pair Cons.prems have e: "e1 = e" by simp
      have miss: "\<not> cacheHit env w f" using Pair Inl by (auto simp: processFile_hit)
      then obtain e2 where "validateFile env options f (matterCache w) = Inl e2"
        using Pair Inl by (cases "validateFile env options f (matterCache w)") (auto simp: processFile_valid)
      with miss Pair Inl e show ?thesis
        by (auto simp: processFile_invalid dest: validateFile_error)
    next
      case (Inr st1)
      with Pair Cons.prems Cons.IH show ?thesis by auto
    qed
  qed
qed

lemma generateDocuments_error:
  "generateDocuments env options w = (Inl e, w') \<Longrightarrow>
   e = ConfigNoPatternsError \<or> (\<exists>msg loc. e = InvalidDocumentFrontmatterError msg loc)"
proof (cases "patterns_length (effectivePatterns (opts_config options)) = 0")
  case True
  assume "generateDocuments env options w = (Inl e, w')"
  with True show ?thesis by (simp add: generateDocuments_empty)
next
  case False
  assume "generateDocuments env options w = (Inl e, w')"
  with False show ?thesis
    by (auto simp: generateDocuments_nonempty split: prod.splits sum.splits dest: processFiles_error)
qed

lemma generateAll_error:
  "generateAll env config defs gens w = (Inl e, w') \<Longrightarrow>
   e = ConfigNoPatternsError \<or> (\<exists>msg loc. e = InvalidDocumentFrontmatterError msg loc)"
proof (induction defs arbitrary: gens w)
  case Nil
  then show ?case by simp
next
  case (Cons d defs)
  obtain ty def where d: "d = (ty, def)" by (cases d)
  show ?case
  proof (cases "generateDocuments env (docsOptions config ty def) w")
    case (Pair r1 w1)
    show ?thesis
    proof (cases r1)
      case (Inl e1)
      with Pair Cons.prems d have "e1 = e" by simp
      with Pair Inl generateDocuments_error show ?thesis by blast
    next
      case (Inr g)
      with Pair Cons.prems d Cons.IH show ?thesis by auto
    qed
  qed
qed

text \<open>
  C10. The statistics are summed by \<open>reduce\<close> with no initial value. With no declared type
  the pass outputs the assets, saves the cache and then throws the \<open>TypeError\<close> of a
  reduce of an empty array, and so does \<open>generate\<close>, after the output directories and the
  entry files; it reports no counts. With at least one declared type that error never
  arises: the pass fails only with an error of a type's processor.
\<close>

theorem reduce_of_empty_generations:
  "(definitions config = [] \<longrightarrow>
      generateInner env config w =
        (Inl (TypeError ''Reduce of empty array with no initial value''),
         w\<lparr>effects := effects w @ [OutputAssets, CacheSave]\<rparr>)
      \<and> generate env mode config w =
        (Inl (TypeError ''Reduce of empty array with no initial value''),
         w\<lparr>effects := effects w @
              [Mkdir (output_assets (cfg_output config)),
               Mkdir (output_generated (cfg_output config)),
               OutputEntryFiles, OutputAssets, CacheSave]\<rparr>))
   \<and> (definitions config \<noteq> [] \<longrightarrow>
        (\<forall>m w'. generateInner env config w \<noteq> (Inl (TypeError m), w')))"
proof -
  have empty: "generateInner env config v =
        (Inl (TypeError ''Reduce of empty array with no initial value''),
         v\<lparr>effects := effects v @ [OutputAssets, CacheSave]\<rparr>)"
    if "definitions config = []" for v
    using that
    by (simp add: generateInner_def sumCounts_def Object_values_def ownEntries_def)
  have nonempty: "generateInner env config w \<noteq> (Inl (TypeError m), w')"
    if ne: "definitions config \<noteq> []" for m w'
  proof
    assume thrown: "generateInner env config w = (Inl (TypeError m), w')"
    show False
    proof (cases "generateAll env config (definitions config) [] w")
      case (Pair r w1)
      show ?thesis
      proof (cases r)
        case (Inl e)
        with Pair thrown have "e = TypeError m" by (simp add: generateInner_def)
        with generateAll_error [of env config "definitions config" "[]" w e w1] Pair Inl
        show ?thesis by auto
      next
        case (Inr gens)
        with Pair ne generateAll_nonempty have "gens \<noteq> []" by blast
        then have "length (Object_values gens) > 0"
          by (simp add: Object_values_def length_ownEntries)
        then obtain c cs where "Object_values gens = c # cs"
          by (cases "Object_values gens") auto
        with Pair Inr thrown show ?thesis by (simp add: generateInner_def sumCounts_def)
      qed
    qed
  qed
  show ?thesis using empty nonempty by (simp add: generate_def)
qed

theorem reduce_of_empty_generations_witness:
  "generateInner exEnv (exConfig\<lparr>definitions := []\<rparr>) exWorld =
     (Inl (TypeError ''Reduce of empty array with no initial value''),
      exWorld\<lparr>effects := effects exWorld @ [OutputAssets, CacheSave]\<rparr>)
   \<and> generateInner exEnv exConfig exWorld \<noteq> (Inl (TypeError ''x''), exWorld)"
proof -
  have a: "definitions (exConfig\<lparr>definitions := []\<rparr>) = []" by simp
  have b: "definitions exConfig \<noteq> []" by (simp add: exConfig_def)
  from reduce_of_empty_generations [of "exConfig\<lparr>definitions := []\<rparr>" exEnv exWorld Production]
    reduce_of_empty_generations [of exConfig exEnv exWorld Production] a b
  show ?thesis by simp
qed

section \<open>Format resolution and the body schema\<close>

text \<open>
  C5, as the code has it. An explicit format is returned unchanged. With \<open>'detect'\<close>, each
  of the eight extensions of \<open>mdExtensions\<close> (\<open>.md\<close>, \<open>.markdown\<close>, \<open>.mdown\<close>, \<open>.mkdn\<close>,
  \<open>.mkd\<close>, \<open>.mdwn\<close>, \<open>.mkdown\<close>, \<open>.ron\<close>) resolves to \<open>'md'\<close>, \<open>.mdx\<close> to \<open>'mdx'\<close>,
  \<open>.mdoc\<close> to \<open>'mdoc'\<close>, and every other extension throws an error whose message ends with
  the path.
\<close>

theorem format_detection:
  "getFormat file (Explicit f) = Inr f
   \<and> getFormat file Detect =
       (if extname file \<in> {''.md'', ''.markdown'', ''.mdown'', ''.mkdn'', ''.mkd'', ''.mdwn'',
                             ''.mkdown'', ''.ron''} then Inr MD
        else if extname file = ''.mdx'' then Inr MDX
        else if extname file = ''.mdoc'' then Inr MDOC
        else Inl (Error (''Unable to detect format for file: '' @ file)))"
proof -
  have m: "set mdExtensions = {''.md'', ''.markdown'', ''.mdown'', ''.mkdn'', ''.mkd'', ''.mdwn'',
                             ''.mkdown'', ''.ron''}"
    unfolding mdExtensions_def by (simp only: list.set)
  show ?thesis unfolding getFormat_def Let_def m by (simp only: DocumentFormatInput.case simp_thms)
qed


theorem format_detection_witness:
  "getFormat ''/site/content/posts/a.txt'' (Explicit MDX) = Inr MDX
   \<and> getFormat ''/site/content/posts/a.markdown'' Detect = Inr MD
   \<and> getFormat ''/site/content/posts/a.mdoc'' Detect = Inr MDOC
   \<and> getFormat ''/site/content/posts/a.txt'' Detect
       = Inl (Error ''Unable to detect format for file: /site/content/posts/a.txt'')"
proof -
  have a: "extname ''/site/content/posts/a.txt'' = ''.txt''" by code_simp
  have b: "extname ''/site/content/posts/a.markdown'' = ''.markdown''" by code_simp
  have c: "extname ''/site/content/posts/a.mdoc'' = ''.mdoc''" by code_simp
  from format_detection [of "''/site/content/posts/a.txt''" MDX]
    format_detection [of "''/site/content/posts/a.markdown''" MDX]
    format_detection [of "''/site/content/posts/a.mdoc''" MDX]
  show ?thesis unfolding a b c by simp
qed

text \<open>
  The claim as stated fails: \<open>.ron\<close> is none of \<open>.md\<close>, \<open>.markdown\<close>, \<open>.mdown\<close>, \<open>.mdx\<close> and
  \<open>.mdoc\<close>, and a file with that extension resolves to \<open>'md'\<close> instead of throwing.
\<close>

theorem format_detection_counterexample:
  "extname ''/site/content/posts/notes.ron'' = ''.ron''
   \<and> getFormat ''/site/content/posts/notes.ron'' Detect = Inr MD"
proof -
  have a: "extname ''/site/content/posts/notes.ron'' = ''.ron''" by code_simp
  show ?thesis unfolding getFormat_def Let_def a mdExtensions_def by simp
qed

text \<open>
  C9. When the resolved format is \<open>'md'\<close> and \<open>mdAsMarkdoc\<close> is set, the bundler is called
  with \<open>'mdoc'\<close> and the document body stores \<open>'mdoc'\<close>; otherwise (the option unset or
  false, or another resolved format) both use the resolved format as it is.
\<close>

theorem markdown_promoted_to_markdoc:
  assumes "getFormat path (case formatInput of None \<Rightarrow> Detect | Some f \<Rightarrow> f) = Inr resolved"
  shows "body env path formatInput contents fm config =
           (let used = (if resolved = MD \<and> mdAsMarkdoc config = Some True then MDOC else resolved);
                res = bundle' env \<lparr>bp_contents = contents, entryPath = path, bp_format = used,
                                   plugins = config, bp_frontmatter = fm\<rparr>
            in case br_errors res of
                 Some (e # es) \<Rightarrow> BodyIssue e
               | _ \<Rightarrow> Body \<lparr>body_format = used, raw = contents, code = br_code res\<rparr>)"
proof (cases "mdAsMarkdoc config")
  case None
  with assms show ?thesis by (simp add: body_def Let_def)
next
  case (Some b)
  with assms show ?thesis by (cases b) (simp_all add: body_def Let_def)
qed

theorem markdown_promoted_to_markdoc_witness:
  "body exEnv ''/site/content/posts/a.md'' None ''A'' [] (exConfig\<lparr>mdAsMarkdoc := Some True\<rparr>)
     = Body \<lparr>body_format = MDOC, raw = ''A'', code = ''A''\<rparr>
   \<and> body exEnv ''/site/content/posts/a.md'' None ''A'' [] exConfig
     = Body \<lparr>body_format = MD, raw = ''A'', code = ''A''\<rparr>
   \<and> body exEnv ''/site/content/posts/a.mdx'' None ''A'' [] (exConfig\<lparr>mdAsMarkdoc := Some True\<rparr>)
     = Body \<lparr>body_format = MDX, raw = ''A'', code = ''A''\<rparr>"
proof -
  have a: "getFormat ''/site/content/posts/a.md'' (case None of None \<Rightarrow> Detect | Some f \<Rightarrow> f) = Inr MD"
    by code_simp
  have b: "getFormat ''/site/content/posts/a.mdx'' (case None of None \<Rightarrow> Detect | Some f \<Rightarrow> f) = Inr MDX"
    by code_simp
  have c: "mdAsMarkdoc exConfig = None" by (simp add: exConfig_def)
  from markdown_promoted_to_markdoc [OF a, of exEnv "''A''" "[]" "exConfig\<lparr>mdAsMarkdoc := Some True\<rparr>"]
    markdown_promoted_to_markdoc [OF a, of exEnv "''A''" "[]" exConfig]
    markdown_promoted_to_markdoc [OF b, of exEnv "''A''" "[]" "exConfig\<lparr>mdAsMarkdoc := Some True\<rparr>"]
    c
  show ?thesis by (simp add: exEnv_def Let_def)
qed

section \<open>Passes over an unchanged or a slightly changed tree\<close>

lemma cacheHit_same_cache: "cache w' = cache w \<Longrightarrow> cacheHit env w' f = cacheHit env w f"
  by (simp add: cacheHit_def)

lemma cachedDocument_same_cache: "cache w' = cache w \<Longrightarrow> cachedDocument w' f = cachedDocument w f"
  by (simp add: cachedDocument_def)

lemma generateDocuments_Inr_patterns:
  "generateDocuments env options w = (Inr c, w') \<Longrightarrow>
   patterns_length (effectivePatterns (opts_config options)) \<noteq> 0"
  by (cases "patterns_length (effectivePatterns (opts_config options)) = 0")
     (simp_all add: generateDocuments_empty)

text \<open>A completed pass of a type: the loop that ran, and the world it left.\<close>

lemma generateDocuments_Inr:
  assumes "generateDocuments env options w = (Inr c, w')"
  obtains st w2 where
    "processFiles env options (definitionDirOf env options) (discoveredFiles env options)
       \<lparr>n_cached = 0, n_generated = 0, docs = []\<rparr>
       (w\<lparr>effects := effects w @ [Mkdir (generatedDir env options)]\<rparr>) = (Inr st, w2)"
    "c = \<lparr>cached = n_cached st, generated = n_generated st, total = length (docs st)\<rparr>"
    "w' = w2\<lparr>effects := effects w2 @
              [WriteCollection (generatedPath env options ''index.json'') (Object_values (docs st)),
               WriteImports (generatedPath env options ''index.mjs'')
                 (importModule env (opts_type options) (definitionDirOf env options)
                    (Object_keys (docs st)))]\<rparr>"
proof -
  from assms have ne: "patterns_length (effectivePatterns (opts_config options)) \<noteq> 0"
    by (rule generateDocuments_Inr_patterns)
  obtain r w2 where loop:
    "processFiles env options (definitionDirOf env options) (discoveredFiles env options)
       \<lparr>n_cached = 0, n_generated = 0, docs = []\<rparr>
       (w\<lparr>effects := effects w @ [Mkdir (generatedDir env options)]\<rparr>) = (r, w2)"
    by (cases "processFiles env options (definitionDirOf env options) (discoveredFiles env options)
       \<lparr>n_cached = 0, n_generated = 0, docs = []\<rparr>
       (w\<lparr>effects := effects w @ [Mkdir (generatedDir env options)]\<rparr>)")
  from assms have eq: "(case (r, w2) of
        (Inl e, w2) \<Rightarrow> (Inl e, w2)
      | (Inr st, w2) \<Rightarrow>
          (Inr \<lparr>cached = n_cached st, generated = n_generated st, total = length (docs st)\<rparr>,
           w2\<lparr>effects := effects w2 @
              [WriteCollection (generatedPath env options ''index.json'') (Object_values (docs st)),
               WriteImports (generatedPath env options ''index.mjs'')
                 (importModule env (opts_type options) (definitionDirOf env options)
                    (Object_keys (docs st)))]\<rparr>)) = (Inr c, w')"
    unfolding generateDocuments_nonempty [OF ne] loop .
  then obtain st where r: "r = Inr st" by (cases r) simp_all
  from eq [unfolded r] have
    c: "c = \<lparr>cached = n_cached st, generated = n_generated st, total = length (docs st)\<rparr>"
    and w': "w' = w2\<lparr>effects := effects w2 @
              [WriteCollection (generatedPath env options ''index.json'') (Object_values (docs st)),
               WriteImports (generatedPath env options ''index.mjs'')
                 (importModule env (opts_type options) (definitionDirOf env options)
                    (Object_keys (docs st)))]\<rparr>"
    by (simp_all only: prod.case sum.case prod.inject sum.inject)
  show thesis by (rule that [OF loop [unfolded r] c w'])
qed

lemma generateDocuments_coherent:
  assumes "generateDocuments env options w = (Inr c, w')"
  shows "\<forall>f\<in>set (discoveredFiles env options). cacheHit env w' f"
proof -
  from assms obtain st w2 where
    loop: "processFiles env options (definitionDirOf env options) (discoveredFiles env options)
       \<lparr>n_cached = 0, n_generated = 0, docs = []\<rparr>
       (w\<lparr>effects := effects w @ [Mkdir (generatedDir env options)]\<rparr>) = (Inr st, w2)"
    and w': "w' = w2\<lparr>effects := effects w2 @
              [WriteCollection (generatedPath env options ''index.json'') (Object_values (docs st)),
               WriteImports (generatedPath env options ''index.mjs'')
                 (importModule env (opts_type options) (definitionDirOf env options)
                    (Object_keys (docs st)))]\<rparr>"
    by (rule generateDocuments_Inr)
  from processFiles_success [OF loop] have "\<forall>f\<in>set (discoveredFiles env options). cacheHit env w2 f"
    by blast
  moreover have c: "cache w' = cache w2" unfolding w' by simp
  ultimately show ?thesis by (simp add: cacheHit_same_cache [OF c])
qed

lemma generateDocuments_all_hits:
  assumes ne: "patterns_length (effectivePatterns (opts_config options)) \<noteq> 0"
      and hits: "\<forall>f\<in>set (discoveredFiles env options). cacheHit env w f"
      and files: "distinct (discoveredFiles env options)"
  shows "generateDocuments env options w =
           (Inr \<lparr>cached = length (discoveredFiles env options), generated = 0,
                 total = length (discoveredFiles env options)\<rparr>,
            w\<lparr>effects := effects w @
               [Mkdir (generatedDir env options),
                WriteCollection (generatedPath env options ''index.json'')
                  (Object_values (map (\<lambda>f. (f, cachedDocument w f)) (discoveredFiles env options))),
                WriteImports (generatedPath env options ''index.mjs'')
                  (importModule env (opts_type options) (definitionDirOf env options)
                     (Object_keys (map (\<lambda>f. (f, cachedDocument w f)) (discoveredFiles env options))))]\<rparr>)"
proof -
  let ?w0 = "w\<lparr>effects := effects w @ [Mkdir (generatedDir env options)]\<rparr>"
  let ?files = "discoveredFiles env options"
  have c: "cache ?w0 = cache w" by simp
  have h: "\<forall>f\<in>set ?files. cacheHit env ?w0 f" using hits by (simp add: cacheHit_same_cache [OF c])
  have d: "foldl (\<lambda>d f. obj_set f (cachedDocument ?w0 f) d) [] ?files
             = map (\<lambda>f. (f, cachedDocument w f)) ?files"
    using foldl_obj_set_distinct [OF files, of "[]" "cachedDocument ?w0"]
    by (simp add: cachedDocument_same_cache [OF c])
  show ?thesis
    unfolding generateDocuments_nonempty [OF ne] processFiles_all_hits [OF h]
    by (simp add: d)
qed

text \<open>
  C1. When a pass of a type has completed and nothing changed on disk, a second pass over
  the cache it left (kept in memory, or saved and loaded) reads and recompiles no file:
  \<open>generated = 0\<close> and \<open>cached = total\<close>, the number of files discovered, the cache stays
  as it is, and the collection is made of the cached documents. \<open>globby\<close> lists each file
  once.
\<close>

theorem idempotence_under_no_change:
  assumes first: "generateDocuments env options w = (Inr c1, w1)"
      and files: "distinct (discoveredFiles env options)"
      and same: "cache w1' = cache w1"
  shows "generateDocuments env options w1' =
           (Inr \<lparr>cached = length (discoveredFiles env options), generated = 0,
                 total = length (discoveredFiles env options)\<rparr>,
            w1'\<lparr>effects := effects w1' @
               [Mkdir (generatedDir env options),
                WriteCollection (generatedPath env options ''index.json'')
                  (Object_values (map (\<lambda>f. (f, cachedDocument w1 f)) (discoveredFiles env options))),
                WriteImports (generatedPath env options ''index.mjs'')
                  (importModule env (opts_type options) (definitionDirOf env options)
                     (Object_keys (map (\<lambda>f. (f, cachedDocument w1 f)) (discoveredFiles env options))))]\<rparr>)"
proof -
  from first have ne: "patterns_length (effectivePatterns (opts_config options)) \<noteq> 0"
    by (rule generateDocuments_Inr_patterns)
  from generateDocuments_coherent [OF first]
  have hits: "\<forall>f\<in>set (discoveredFiles env options). cacheHit env w1' f"
    by (simp add: cacheHit_same_cache [OF same])
  have docs: "cachedDocument w1' = cachedDocument w1"
    by (rule ext) (rule cachedDocument_same_cache [OF same])
  show ?thesis using generateDocuments_all_hits [OF ne hits files] by (simp add: docs)
qed


lemma exFiles:
  "discoveredFiles exEnv exOptions = [''/site/content/posts/a.md'', ''/site/content/posts/b.md'']"
  by (simp add: discoveredFiles_def exEnv_def exOptions_def docsOptions_def exConfig_def)

lemma exFirstPass:
  "fst (generateDocuments exEnv exOptions exWorld) = Inr \<lparr>cached = 0, generated = 2, total = 2\<rparr>"
  by code_simp

theorem idempotence_under_no_change_witness:
  "fst (generateDocuments exEnv exOptions (snd (generateDocuments exEnv exOptions exWorld)))
     = Inr \<lparr>cached = 2, generated = 0, total = 2\<rparr>"
proof -
  obtain w1 where first:
    "generateDocuments exEnv exOptions exWorld = (Inr \<lparr>cached = 0, generated = 2, total = 2\<rparr>, w1)"
    using exFirstPass by (cases "generateDocuments exEnv exOptions exWorld") simp
  have files: "distinct (discoveredFiles exEnv exOptions)" by (simp add: exFiles)
  from idempotence_under_no_change [OF first files refl]
  show ?thesis by (simp add: first exFiles)
qed

lemma processFiles_single_miss:
  fixes dir :: string
  assumes files: "distinct files" and g: "g \<in> set files"
      and hits: "\<forall>f\<in>set files. f \<noteq> g \<longrightarrow> cacheHit env w f"
      and miss: "\<not> cacheHit env w g"
      and valid: "validateFile env options g (matterCache w) = Inr d"
  defines "W \<equiv> w\<lparr>effects := effects w @
           [ReadFile g,
            WriteDocument (generatedPath env options (idToFileName env (relative env dir g) @ ''.json'')) d],
        cache := (cache w)\<lparr>items := (items (cache w))
          (g \<mapsto> \<lparr>item_hash = stat_mtimeMs env g, item_type = opts_type options, document = d\<rparr>)\<rparr>,
        matterCache := snd (grayMatter env (matterCache w) (readFile env g))\<rparr>"
  shows "\<exists>st'. processFiles env options dir files st w = (Inr st', W)
           \<and> n_cached st' = n_cached st + (length files - 1)
           \<and> n_generated st' = n_generated st + 1"
proof -
  from g obtain pre post where split: "files = pre @ g # post" by (auto dest: split_list)
  with files have gpre: "g \<notin> set pre" and gpost: "g \<notin> set post" by auto
  have hpre: "\<forall>f\<in>set pre. cacheHit env w f" using hits split gpre by auto
  define stA where "stA = st\<lparr>docs := foldl (\<lambda>d f. obj_set f (cachedDocument w f) d) (docs st) pre,
              n_cached := n_cached st + length pre\<rparr>"
  have A: "processFiles env options dir pre st w = (Inr stA, w)"
    unfolding stA_def by (rule processFiles_all_hits [OF hpre])
  define stB where "stB = stA\<lparr>docs := obj_set g d (docs stA), n_generated := n_generated stA + 1\<rparr>"
  have B: "processFile env options dir g stA w = (Inr stB, W)"
    unfolding stB_def W_def by (rule processFile_valid [OF miss valid])
  have hpost: "\<forall>f\<in>set post. cacheHit env W f"
  proof
    fix f assume f: "f \<in> set post"
    with gpost have ne: "f \<noteq> g" by auto
    from f split hits ne have "cacheHit env w f" by auto
    moreover have "items (cache W) f = items (cache w) f" using ne by (simp add: W_def)
    ultimately show "cacheHit env W f" by (simp add: cacheHit_def)
  qed
  define stC where "stC = stB\<lparr>docs := foldl (\<lambda>d f. obj_set f (cachedDocument W f) d) (docs stB) post,
              n_cached := n_cached stB + length post\<rparr>"
  have C: "processFiles env options dir post stB W = (Inr stC, W)"
    unfolding stC_def by (rule processFiles_all_hits [OF hpost])
  have "processFiles env options dir files st w = (Inr stC, W)"
    unfolding split processFiles_append A by (simp add: B C)
  moreover have "n_cached stC = n_cached st + (length files - 1)"
    by (simp add: stC_def stB_def stA_def split)
  moreover have "n_generated stC = n_generated st + 1"
    by (simp add: stC_def stB_def stA_def)
  ultimately show ?thesis by blast
qed

lemma modifyFile_other: "f \<noteq> g \<Longrightarrow> stat_mtimeMs (modifyFile env g t text) f = stat_mtimeMs env f"
  by (simp add: modifyFile_def)

lemma modifyFile_self: "stat_mtimeMs (modifyFile env g t text) g = t"
  by (simp add: modifyFile_def)

lemma modifyFile_files: "discoveredFiles (modifyFile env g t text) options = discoveredFiles env options"
  by (simp add: modifyFile_def discoveredFiles_def)


text \<open>
  C2. After a completed pass of a type, one of its \<open>N\<close> files is modified (its
  modification time changes; its contents may) and the pass runs again over the cache the
  first pass left. Provided the modified file passes validation, so that the pass
  completes, it returns \<open>generated = 1\<close>, \<open>cached = N - 1\<close> and \<open>total = N\<close>; the modified
  file is the only one read, its cache entry holds the new data, and every other entry is
  untouched. \<open>globby\<close> lists each file once. Whether a file passes validation does not
  depend on the memo table of the metadata extractor (\<open>validateFile_Inr_memo\<close>), so the
  hypothesis may be checked on any table.
\<close>

theorem precise_invalidation:
  assumes first: "generateDocuments env options w = (Inr c1, w1)"
      and files: "distinct (discoveredFiles env options)"
      and g: "g \<in> set (discoveredFiles env options)"
      and modified: "t \<noteq> stat_mtimeMs env g"
      and valid: "validateFile (modifyFile env g t text) options g memo = Inr d"
      and same: "cache w1' = cache w1"
  shows "\<exists>w2. generateDocuments (modifyFile env g t text) options w1' =
                (Inr \<lparr>cached = length (discoveredFiles env options) - 1, generated = 1,
                      total = length (discoveredFiles env options)\<rparr>, w2)
              \<and> readFiles (newEffects w1' w2) = [g]
              \<and> cachedDocument w2 g = d
              \<and> (\<forall>f. f \<noteq> g \<longrightarrow> items (cache w2) f = items (cache w1) f)"
proof -
  let ?env = "modifyFile env g t text"
  let ?files = "discoveredFiles env options"
  let ?dir = "definitionDirOf ?env options"
  define w0 where "w0 = w1'\<lparr>effects := effects w1' @ [Mkdir (generatedDir ?env options)]\<rparr>"
  define W where "W = w0\<lparr>effects := effects w0 @
           [ReadFile g,
            WriteDocument (generatedPath ?env options (idToFileName ?env (relative ?env ?dir g) @ ''.json'')) d],
        cache := (cache w0)\<lparr>items := (items (cache w0))
          (g \<mapsto> \<lparr>item_hash = stat_mtimeMs ?env g, item_type = opts_type options, document = d\<rparr>)\<rparr>,
        matterCache := snd (grayMatter ?env (matterCache w0) (readFile ?env g))\<rparr>"
  from valid have valid0: "validateFile ?env options g (matterCache w0) = Inr d"
    by (simp add: validateFile_Inr_memo [of ?env options g memo d "matterCache w0"])
  from first have ne: "patterns_length (effectivePatterns (opts_config options)) \<noteq> 0"
    by (rule generateDocuments_Inr_patterns)
  have c0: "cache w0 = cache w1" by (simp add: w0_def same)
  note coherent = generateDocuments_coherent [OF first]
  have hits: "\<forall>f\<in>set ?files. f \<noteq> g \<longrightarrow> cacheHit ?env w0 f"
    using coherent by (auto simp: cacheHit_def c0 modifyFile_other split: option.splits)
  have miss: "\<not> cacheHit ?env w0 g"
    using coherent g modified by (auto simp: cacheHit_def c0 modifyFile_self split: option.splits)
  have "\<exists>st'. processFiles ?env options ?dir ?files \<lparr>n_cached = 0, n_generated = 0, docs = []\<rparr> w0
               = (Inr st', W)
           \<and> n_cached st' = n_cached \<lparr>n_cached = 0, n_generated = 0, docs = []\<rparr> + (length ?files - 1)
           \<and> n_generated st' = n_generated \<lparr>n_cached = 0, n_generated = 0, docs = []\<rparr> + 1"
    unfolding W_def by (rule processFiles_single_miss [OF files g hits miss valid0])
  then obtain st' where
    loop: "processFiles ?env options ?dir ?files \<lparr>n_cached = 0, n_generated = 0, docs = []\<rparr> w0
             = (Inr st', W)"
    and nc: "n_cached st' = length ?files - 1" and ng: "n_generated st' = 1"
    by auto
  from processFiles_success [OF loop]
  have "docs st' = foldl (\<lambda>d f. obj_set f (cachedDocument W f) d) [] ?files" by simp
  also have "\<dots> = map (\<lambda>f. (f, cachedDocument W f)) ?files"
    using foldl_obj_set_distinct [OF files, of "[]" "cachedDocument W"] by simp
  finally have len: "length (docs st') = length ?files" by simp
  define w2 where "w2 = W\<lparr>effects := effects W @
              [WriteCollection (generatedPath ?env options ''index.json'') (Object_values (docs st')),
               WriteImports (generatedPath ?env options ''index.mjs'')
                 (importModule ?env (opts_type options) ?dir (Object_keys (docs st')))]\<rparr>"
  have ne': "patterns_length (effectivePatterns (opts_config options)) \<noteq> 0" by (rule ne)
  have run: "generateDocuments ?env options w1' =
        (Inr \<lparr>cached = length ?files - 1, generated = 1, total = length ?files\<rparr>, w2)"
    unfolding generateDocuments_nonempty [OF ne'] modifyFile_files w0_def [symmetric] loop w2_def
    by (simp add: nc ng len)
  have eff: "effects w2 = effects w1' @
      [Mkdir (generatedDir ?env options), ReadFile g,
       WriteDocument (generatedPath ?env options (idToFileName ?env (relative ?env ?dir g) @ ''.json'')) d,
       WriteCollection (generatedPath ?env options ''index.json'') (Object_values (docs st')),
       WriteImports (generatedPath ?env options ''index.mjs'')
         (importModule ?env (opts_type options) ?dir (Object_keys (docs st')))]"
    by (simp add: w2_def W_def w0_def)
  have reads: "readFiles (newEffects w1' w2) = [g]"
    by (simp add: newEffects_def eff)
  have doc: "cachedDocument w2 g = d"
    by (simp add: cachedDocument_def w2_def W_def)
  have others: "\<forall>f. f \<noteq> g \<longrightarrow> items (cache w2) f = items (cache w1) f"
    by (simp add: w2_def W_def c0)
  from run reads doc others show ?thesis by blast
qed


theorem precise_invalidation_witness:
  "fst (generateDocuments
          (modifyFile exEnv ''/site/content/posts/b.md'' ''1700000009999'' ''B2'') exOptions
          (snd (generateDocuments exEnv exOptions exWorld)))
     = Inr \<lparr>cached = 1, generated = 1, total = 2\<rparr>"
proof -
  obtain w1 where first:
    "generateDocuments exEnv exOptions exWorld = (Inr \<lparr>cached = 0, generated = 2, total = 2\<rparr>, w1)"
    using exFirstPass by (cases "generateDocuments exEnv exOptions exWorld") simp
  have files: "distinct (discoveredFiles exEnv exOptions)" by (simp add: exFiles)
  have g: "''/site/content/posts/b.md'' \<in> set (discoveredFiles exEnv exOptions)"
    by (simp add: exFiles)
  have modified: "''1700000009999'' \<noteq> stat_mtimeMs exEnv ''/site/content/posts/b.md''"
    by (simp add: exEnv_def)
  have valid: "validateFile (modifyFile exEnv ''/site/content/posts/b.md'' ''1700000009999'' ''B2'')
                 exOptions ''/site/content/posts/b.md'' {}
               = Inr [(''title'', JStr ''B2''), (''slug'', JStr ''B2'')]"
    by code_simp
  from precise_invalidation [OF first files g modified valid refl]
  show ?thesis by (auto simp: first exFiles)
qed

section \<open>Validation\<close>

lemma validateFile_success:
  "schemaFor env options file = Some sch \<Longrightarrow> sch (frontmatterOf env file) = ParseSuccess d \<Longrightarrow>
   validateFile env options file memo = Inr d"
  unfolding validateFile_def schemaFor_def frontmatterOf_def Let_def grayMatter_data [of env memo]
  by simp


lemma schemaFor_declared: "schema options = Some spec \<Longrightarrow> \<exists>sch. schemaFor env options file = Some sch"
  by (cases spec) (simp_all add: schemaFor_def resolveSchema_def)

lemma validateFile_no_schema:
  "schemaFor env options file = None \<Longrightarrow>
   validateFile env options file memo = Inr (frontmatterOf env file)"
  unfolding validateFile_def schemaFor_def frontmatterOf_def Let_def grayMatter_data [of env memo]
  by simp

lemma validateFile_failure:
  "schemaFor env options file = Some sch \<Longrightarrow>
   sch (frontmatterOf env file) = ParseFailure issue others \<Longrightarrow>
   validateFile env options file memo =
     Inl (InvalidDocumentFrontmatterError
            (frontmatterErrorMessage env (opts_type options)
               (relative env (configPath (opts_config options)) file) (issue # others))
            \<lparr>loc_file = file,
             loc_line = getYamlErrorLine env (rawMatterOf env memo file) (firstPathKey issue),
             loc_column = 0\<rparr>)"
  unfolding validateFile_def schemaFor_def frontmatterOf_def rawMatterOf_def Let_def
    grayMatter_data [of env memo]
  by simp

lemma validateFile_Inl:
  assumes "validateFile env options file memo = Inl e"
  obtains sch issue others where
    "schemaFor env options file = Some sch"
    "sch (frontmatterOf env file) = ParseFailure issue others"
    "e = InvalidDocumentFrontmatterError
            (frontmatterErrorMessage env (opts_type options)
               (relative env (configPath (opts_config options)) file) (issue # others))
            \<lparr>loc_file = file,
             loc_line = getYamlErrorLine env (rawMatterOf env memo file) (firstPathKey issue),
             loc_column = 0\<rparr>"
proof (cases "schemaFor env options file")
  case None
  with assms show ?thesis by (simp add: validateFile_no_schema)
next
  case (Some sch)
  show ?thesis
  proof (cases "sch (frontmatterOf env file)")
    case (ParseSuccess d)
    with Some assms show ?thesis by (simp add: validateFile_success)
  next
    case (ParseFailure issue others)
    with Some assms that show ?thesis by (simp add: validateFile_failure)
  qed
qed



section \<open>The order of the collection\<close>

lemma exSecondPass:
  "fst (generateDocuments
          (modifyFile exEnv ''/site/content/posts/b.md'' ''1700000009999'' ''B2'') exOptions
          (snd (generateDocuments exEnv exOptions exWorld)))
     = Inr \<lparr>cached = 1, generated = 1, total = 2\<rparr>"
  by code_simp

text \<open>
  \<open>lines.join('\n')\<close> where the last line is empty ends every other line with a newline;
  the array line, \<open>names.join(',\n  ')\<close> between two spaces and a comma, is one indented
  name and a comma per line.
\<close>

lemma js_join_terminated: "xs \<noteq> [] \<Longrightarrow> js_join sep (xs @ [[]]) = concat (map (\<lambda>x. x @ sep) xs)"
  by (induction sep xs rule: js_join.induct) simp_all

lemma js_join_wrapped:
  "xs \<noteq> [] \<Longrightarrow> p @ js_join (s @ p) xs @ s = concat (map (\<lambda>x. p @ x @ s) xs)"
  by (induction "s @ p" xs rule: js_join.induct) simp_all

text \<open>The text of the import module, character by character.\<close>

lemma importModule_text:
  "importModule env ty dir ids =
     concat (map (\<lambda>line. line @ [CHR 0x0A])
               ([autogeneratedNote env, []]
                @ map (\<lambda>f. ''import '' @ makeVariableName env f @ '' from '' @ [CHR 0x27] @ ''./''
                            @ idToFileName env (relative env dir f)
                            @ ''.json'' @ [CHR 0x27] @ assertStatement env @ '';'') ids
                @ [[], ''export const '' @ getDataVariableName env ty @ '' = ['']))
     @ (if ids = [] then ''  ,'' @ [CHR 0x0A]
        else concat (map (\<lambda>f. ''  '' @ makeVariableName env f @ '','' @ [CHR 0x0A]) ids))
     @ ''];'' @ [CHR 0x0A]"
proof -
  let ?imports = "map (\<lambda>f. ''import '' @ makeVariableName env f @ '' from '' @ [CHR 0x27] @ ''./''
                            @ idToFileName env (relative env dir f)
                            @ ''.json'' @ [CHR 0x27] @ assertStatement env @ '';'') ids"
  let ?array = "''  '' @ js_join ('','' @ [CHR 0x0A] @ ''  '') (map (makeVariableName env) ids) @ '',''"
  let ?head = "[autogeneratedNote env, []] @ ?imports
                 @ [[], ''export const '' @ getDataVariableName env ty @ '' = ['']"
  have "importModule env ty dir ids = js_join [CHR 0x0A] ((?head @ [?array, ''];'']) @ [[]])"
    by (simp add: importModule_def)
  also have "\<dots> = concat (map (\<lambda>line. line @ [CHR 0x0A]) (?head @ [?array, ''];'']))"
    by (rule js_join_terminated) simp
  also have "\<dots> = concat (map (\<lambda>line. line @ [CHR 0x0A]) ?head)
                    @ (?array @ [CHR 0x0A]) @ ''];'' @ [CHR 0x0A]"
    by simp
  also have "?array @ [CHR 0x0A] =
      (if ids = [] then ''  ,'' @ [CHR 0x0A]
       else concat (map (\<lambda>f. ''  '' @ makeVariableName env f @ '','' @ [CHR 0x0A]) ids))"
  proof (cases "ids = []")
    case True
    then show ?thesis by simp
  next
    case False
    then have "map (makeVariableName env) ids \<noteq> []" by simp
    from js_join_wrapped [OF this, of "''  ''" "'','' @ [CHR 0x0A]"] False
    show ?thesis by (simp add: comp_def)
  qed
  finally show ?thesis .
qed

text \<open>
  C6. A completed pass of a type ends by writing \<open>index.json\<close> and the import module, and
  both list the documents in the order in which \<open>globby\<close> returned the files: the
  collection is the list of the files' documents (the one the cache holds for each file
  after the pass); the text of the module is the note, an empty line, one import line
  per file in that order, an empty line, the opening of the exported array, one indented
  variable name and a comma per file in that order (the line \<open>  ,\<close> when there is no
  file), and the closing bracket. This is so whichever files were served from the cache:
  for those the document is the cached one, for the others it is the validated data.
  \<open>globby\<close> returns absolute paths, each once.
\<close>

theorem collection_in_discovery_order:
  assumes run: "generateDocuments env options w = (Inr c, w')"
      and files: "distinct (discoveredFiles env options)"
      and absolute: "\<forall>f\<in>set (discoveredFiles env options). isAbsolute f"
  shows "\<exists>written.
           effects w' = effects w @ Mkdir (generatedDir env options) # written @
             [WriteCollection (generatedPath env options ''index.json'')
                (map (cachedDocument w') (discoveredFiles env options)),
              WriteImports (generatedPath env options ''index.mjs'')
                (concat (map (\<lambda>line. line @ [CHR 0x0A])
                   ([autogeneratedNote env, []]
                    @ map (\<lambda>f. ''import '' @ makeVariableName env f @ '' from '' @ [CHR 0x27] @ ''./''
                                @ idToFileName env (relative env (definitionDirOf env options) f)
                                @ ''.json'' @ [CHR 0x27] @ assertStatement env @ '';'')
                        (discoveredFiles env options)
                    @ [[], ''export const '' @ getDataVariableName env (opts_type options) @ '' = ['']))
                 @ (if discoveredFiles env options = [] then ''  ,'' @ [CHR 0x0A]
                    else concat (map (\<lambda>f. ''  '' @ makeVariableName env f @ '','' @ [CHR 0x0A])
                                   (discoveredFiles env options)))
                 @ ''];'' @ [CHR 0x0A])]
           \<and> list_all isDocumentEffect written
           \<and> (\<forall>f\<in>set (discoveredFiles env options).
                 if cacheHit env w f then cachedDocument w' f = cachedDocument w f
                 else validateFile env options f (matterCache w) = Inr (cachedDocument w' f))"
proof -
  let ?files = "discoveredFiles env options"
  define w0 where "w0 = w\<lparr>effects := effects w @ [Mkdir (generatedDir env options)]\<rparr>"
  from run obtain st w2 where
    loop: "processFiles env options (definitionDirOf env options) ?files
       \<lparr>n_cached = 0, n_generated = 0, docs = []\<rparr> w0 = (Inr st, w2)"
    and w': "w' = w2\<lparr>effects := effects w2 @
              [WriteCollection (generatedPath env options ''index.json'') (Object_values (docs st)),
               WriteImports (generatedPath env options ''index.mjs'')
                 (importModule env (opts_type options) (definitionDirOf env options)
                    (Object_keys (docs st)))]\<rparr>"
    unfolding w0_def by (rule generateDocuments_Inr)
  have c0: "cache w0 = cache w" by (simp add: w0_def)
  have c2: "cache w' = cache w2" by (simp add: w')
  from processFiles_frame [OF loop] obtain written where
    eff: "effects w2 = effects w0 @ written" and doc: "list_all isDocumentEffect written"
    and stable: "\<forall>g. cacheHit env w0 g \<longrightarrow> items (cache w2) g = items (cache w0) g"
    by blast
  from processFiles_success [OF loop]
  have "docs st = foldl (\<lambda>d f. obj_set f (cachedDocument w2 f) d) [] ?files" by simp
  also have "\<dots> = map (\<lambda>f. (f, cachedDocument w2 f)) ?files"
    using foldl_obj_set_distinct [OF files, of "[]" "cachedDocument w2"] by simp
  finally have docs: "docs st = map (\<lambda>f. (f, cachedDocument w' f)) ?files"
    by (simp add: cachedDocument_same_cache [OF c2])
  have keys: "Object_keys (docs st) = ?files"
    unfolding docs by (rule Object_keys_absolute [OF absolute])
  have vals: "Object_values (docs st) = map (cachedDocument w') ?files"
    unfolding docs by (rule Object_values_absolute [OF absolute])
  have a: "effects w' = effects w @ Mkdir (generatedDir env options) # written @
             [WriteCollection (generatedPath env options ''index.json'')
                (map (cachedDocument w') ?files),
              WriteImports (generatedPath env options ''index.mjs'')
                (importModule env (opts_type options) (definitionDirOf env options) ?files)]"
  proof -
    have "effects w' = effects w2 @
              [WriteCollection (generatedPath env options ''index.json'') (Object_values (docs st)),
               WriteImports (generatedPath env options ''index.mjs'')
                 (importModule env (opts_type options) (definitionDirOf env options)
                    (Object_keys (docs st)))]"
      by (subst w') simp
    then show ?thesis unfolding keys vals eff by (simp add: w0_def)
  qed
  note a' = a [unfolded importModule_text]
  have b: "if cacheHit env w f then cachedDocument w' f = cachedDocument w f
           else validateFile env options f (matterCache w) = Inr (cachedDocument w' f)"
    if f: "f \<in> set ?files" for f
  proof (cases "cacheHit env w f")
    case True
    then have "cacheHit env w0 f" by (simp add: cacheHit_same_cache [OF c0])
    with stable have "items (cache w2) f = items (cache w0) f" by blast
    then have "items (cache w') f = items (cache w) f" by (simp add: c0 c2)
    then have "cachedDocument w' f = cachedDocument w f" by (rule cachedDocument_cong)
    with True show ?thesis by simp
  next
    case False
    then have "\<not> cacheHit env w0 f" by (simp add: cacheHit_same_cache [OF c0])
    from processFiles_miss_document [OF loop f this]
    have "validateFile env options f (matterCache w) = Inr (cachedDocument w2 f)" .
    with False show ?thesis by (simp add: cachedDocument_same_cache [OF c2])
  qed
  from a' doc b show ?thesis by blast
qed

theorem collection_in_discovery_order_witness:
  "\<exists>written.
     effects (snd (generateDocuments
                     (modifyFile exEnv ''/site/content/posts/b.md'' ''1700000009999'' ''B2'') exOptions
                     (snd (generateDocuments exEnv exOptions exWorld))))
       = effects (snd (generateDocuments exEnv exOptions exWorld))
         @ Mkdir ''/site/.markdownlayer/generated/posts'' # written @
           [WriteCollection ''/site/.markdownlayer/generated/posts/index.json''
              [[(''title'', JStr ''A''), (''slug'', JStr ''A'')],
               [(''title'', JStr ''B2''), (''slug'', JStr ''B2'')]],
            WriteImports ''/site/.markdownlayer/generated/posts/index.mjs''
              (concat (map (\<lambda>line. line @ [CHR 0x0A])
                 [''// NOTE This file is auto-generated.'',
                  [],
                  ''import sitecontentpostsamd from '' @ [CHR 0x27] @ ''./a.md.json'' @ [CHR 0x27]
                    @ '' with { type: json };'',
                  ''import sitecontentpostsbmd from '' @ [CHR 0x27] @ ''./b.md.json'' @ [CHR 0x27]
                    @ '' with { type: json };'',
                  [],
                  ''export const posts = ['',
                  ''  sitecontentpostsamd,'',
                  ''  sitecontentpostsbmd,'',
                  ''];'']))]"
proof -
  let ?env = "modifyFile exEnv ''/site/content/posts/b.md'' ''1700000009999'' ''B2''"
  let ?w1 = "snd (generateDocuments exEnv exOptions exWorld)"
  obtain w2 where run:
    "generateDocuments ?env exOptions ?w1 = (Inr \<lparr>cached = 1, generated = 1, total = 2\<rparr>, w2)"
    using exSecondPass by (cases "generateDocuments ?env exOptions ?w1") simp
  have fs: "discoveredFiles ?env exOptions = [''/site/content/posts/a.md'', ''/site/content/posts/b.md'']"
    by (simp add: modifyFile_files exFiles)
  have files: "distinct (discoveredFiles ?env exOptions)" by (simp add: fs)
  have absolute: "\<forall>f\<in>set (discoveredFiles ?env exOptions). isAbsolute f"
    by (simp add: fs isAbsolute_def)
  have da: "cachedDocument (snd (generateDocuments ?env exOptions ?w1)) ''/site/content/posts/a.md''
              = [(''title'', JStr ''A''), (''slug'', JStr ''A'')]"
    by code_simp
  have db: "cachedDocument (snd (generateDocuments ?env exOptions ?w1)) ''/site/content/posts/b.md''
              = [(''title'', JStr ''B2''), (''slug'', JStr ''B2'')]"
    by code_simp
  have p1: "generatedDir ?env exOptions = ''/site/.markdownlayer/generated/posts''"
    by code_simp
  have p2: "generatedPath ?env exOptions ''index.json'' = ''/site/.markdownlayer/generated/posts/index.json''"
    by code_simp
  have p3: "generatedPath ?env exOptions ''index.mjs'' = ''/site/.markdownlayer/generated/posts/index.mjs''"
    by code_simp
  have p4: "definitionDirOf ?env exOptions = ''/site/content/posts''"
    by code_simp
  have p5: "opts_type exOptions = ''posts''" by (simp add: exOptions_def docsOptions_def)
  have n1: "autogeneratedNote ?env = ''// NOTE This file is auto-generated.''" by code_simp
  have n2: "assertStatement ?env = '' with { type: json }''" by code_simp
  have n3: "getDataVariableName ?env ''posts'' = ''posts''" by code_simp
  have va: "makeVariableName ?env ''/site/content/posts/a.md'' = ''sitecontentpostsamd''" by code_simp
  have vb: "makeVariableName ?env ''/site/content/posts/b.md'' = ''sitecontentpostsbmd''" by code_simp
  have ia: "idToFileName ?env (relative ?env ''/site/content/posts'' ''/site/content/posts/a.md'') = ''a.md''"
    by code_simp
  have ib: "idToFileName ?env (relative ?env ''/site/content/posts'' ''/site/content/posts/b.md'') = ''b.md''"
    by code_simp
  from collection_in_discovery_order [OF run files absolute] da db
  show ?thesis unfolding fs p1 p2 p3 p4 p5 by (auto simp: run n1 n2 n3 va vb ia ib)
qed

section \<open>Failing validation\<close>

lemma find_split:
  "find P xs = Some x \<Longrightarrow> \<exists>ys zs. xs = ys @ x # zs \<and> P x \<and> (\<forall>y\<in>set ys. \<not> P y)"
proof (induction xs)
  case Nil
  then show ?case by simp
next
  case (Cons a xs)
  show ?case
  proof (cases "P a")
    case True
    with Cons.prems have "a = x" by simp
    with True have "a # xs = [] @ x # xs \<and> P x \<and> (\<forall>y\<in>set []. \<not> P y)" by simp
    then show ?thesis by blast
  next
    case False
    with Cons.prems have "find P xs = Some x" by simp
    from Cons.IH [OF this] obtain ys zs where "xs = ys @ x # zs" "P x" "\<forall>y\<in>set ys. \<not> P y"
      by blast
    with False have "a # xs = (a # ys) @ x # zs \<and> P x \<and> (\<forall>y\<in>set (a # ys). \<not> P y)" by simp
    then show ?thesis by blast
  qed
qed

lemma find_exists: "\<exists>x\<in>set xs. P x \<Longrightarrow> \<exists>y. find P xs = Some y"
  by (induction xs) auto

lemma processFiles_first_failure:
  assumes first: "find (failsValidation env options w) files = Some g"
  shows "\<exists>w' written memo e. processFiles env options dir files st w = (Inl e, w')
           \<and> validateFile env options g memo = Inl e
           \<and> effects w' = effects w @ written @ [ReadFile g]
           \<and> list_all isDocumentEffect written"
proof -
  from find_split [OF first] obtain pre post where
    split: "files = pre @ g # post" and bad: "failsValidation env options w g"
    and pre: "\<forall>f\<in>set pre. \<not> failsValidation env options w f"
    by blast
  from bad pre have gpre: "g \<notin> set pre" by blast
  from processFiles_no_failure [OF pre] obtain stA wA where
    A: "processFiles env options dir pre st w = (Inr stA, wA)" by blast
  from processFiles_frame [OF A] obtain written where
    out: "\<forall>f. f \<notin> set pre \<longrightarrow> items (cache wA) f = items (cache w) f"
    and eff: "effects wA = effects w @ written" and doc: "list_all isDocumentEffect written"
    by blast
  from out gpre have "items (cache wA) g = items (cache w) g" by blast
  with bad have miss: "\<not> cacheHit env wA g" by (simp add: failsValidation_def cacheHit_def)
  from bad have "isl (validateFile env options g (matterCache wA))"
    using validateFile_isl_memo [of env options g "matterCache w" "matterCache wA"]
    by (simp add: failsValidation_def)
  then obtain e where invalid: "validateFile env options g (matterCache wA) = Inl e"
    by (cases "validateFile env options g (matterCache wA)") simp_all
  define wB where "wB = wA\<lparr>effects := effects wA @ [ReadFile g],
                     matterCache := snd (grayMatter env (matterCache wA) (readFile env g))\<rparr>"
  have B: "processFile env options dir g stA wA = (Inl e, wB)"
    unfolding wB_def by (rule processFile_invalid [OF miss invalid])
  have "processFiles env options dir files st w = (Inl e, wB)"
    unfolding split processFiles_append A by (simp add: B)
  moreover have "effects wB = effects w @ written @ [ReadFile g]"
    by (simp add: eff wB_def)
  ultimately show ?thesis using doc invalid by blast
qed

lemma generateAll_append:
  "generateAll env config (xs @ ys) gens w =
     (case generateAll env config xs gens w of
        (Inl e, w') \<Rightarrow> (Inl e, w')
      | (Inr gens', w') \<Rightarrow> generateAll env config ys gens' w')"
  by (induction xs arbitrary: gens w) (auto split: prod.splits sum.splits)

text \<open>
  What holds of a failing validation on every input. The pass has reached a type (the
  types declared before it completed), and among the type's files there is one that the
  pass validates (it is not served from the cache) and whose validation fails. Then the
  processor throws at the first such file in discovery order: an
  \<open>InvalidDocumentFrontmatterError\<close> whose location is that file, the line that
  \<open>getYamlErrorLine\<close> gives for the \<open>matter\<close> property of the extraction (on the memo
  table as it is when the loop reaches the file) and the first path element of the first
  issue, and column 0, and whose message is made from the type, the file's relative path
  and the issues. The whole pass ends with that error. All the type's pass has done by
  then is make its directory, read and write the documents of earlier files and read the
  failing file: no \<open>index.json\<close>, no import module, no assets, no cache save.
\<close>

lemma validation_failure_aborts_pass:
  fixes config :: ResolvedConfig and ty :: string and "def" :: DocumentDefinition
  defines "options \<equiv> docsOptions config ty def"
  assumes defs: "definitions config = before @ (ty, def) # after"
      and earlier: "generateAll env config before [] w0 = (Inr gens, w)"
      and pats: "patterns_length (effectivePatterns config) \<noteq> 0"
      and bad: "\<exists>f\<in>set (discoveredFiles env options). failsValidation env options w f"
  shows "\<exists>g sch issue others memo written w'.
           find (failsValidation env options w) (discoveredFiles env options) = Some g
           \<and> schemaFor env options g = Some sch
           \<and> sch (frontmatterOf env g) = ParseFailure issue others
           \<and> generateDocuments env options w =
               (Inl (InvalidDocumentFrontmatterError
                       (frontmatterErrorMessage env ty (relative env (configPath config) g)
                          (issue # others))
                       \<lparr>loc_file = g,
                        loc_line = getYamlErrorLine env (rawMatterOf env memo g) (firstPathKey issue),
                        loc_column = 0\<rparr>), w')
           \<and> generateInner env config w0 =
               (Inl (InvalidDocumentFrontmatterError
                       (frontmatterErrorMessage env ty (relative env (configPath config) g)
                          (issue # others))
                       \<lparr>loc_file = g,
                        loc_line = getYamlErrorLine env (rawMatterOf env memo g) (firstPathKey issue),
                        loc_column = 0\<rparr>), w')
           \<and> effects w' = effects w @ Mkdir (generatedDir env options) # written @ [ReadFile g]
           \<and> list_all isDocumentEffect written"
proof -
  let ?files = "discoveredFiles env options"
  define w1 where "w1 = w\<lparr>effects := effects w @ [Mkdir (generatedDir env options)]\<rparr>"
  have c1: "cache w1 = cache w" by (simp add: w1_def)
  have m1: "matterCache w1 = matterCache w" by (simp add: w1_def)
  have same: "failsValidation env options w1 = failsValidation env options w"
    by (rule ext) (simp add: failsValidation_def cacheHit_same_cache [OF c1] m1)
  from find_exists [OF bad] obtain g where
    g: "find (failsValidation env options w) ?files = Some g" by blast
  from g have g1: "find (failsValidation env options w1) ?files = Some g" by (simp add: same)
  from processFiles_first_failure [OF g1] obtain w' written memo e where
    loop: "processFiles env options (definitionDirOf env options) ?files
             \<lparr>n_cached = 0, n_generated = 0, docs = []\<rparr> w1 = (Inl e, w')"
    and e: "validateFile env options g memo = Inl e"
    and eff: "effects w' = effects w1 @ written @ [ReadFile g]"
    and doc: "list_all isDocumentEffect written"
    by blast
  from validateFile_Inl [OF e] obtain sch issue others where
    sch: "schemaFor env options g = Some sch"
    and failure: "sch (frontmatterOf env g) = ParseFailure issue others"
    and e_def: "e = InvalidDocumentFrontmatterError
            (frontmatterErrorMessage env (opts_type options)
               (relative env (configPath (opts_config options)) g) (issue # others))
            \<lparr>loc_file = g,
             loc_line = getYamlErrorLine env (rawMatterOf env memo g) (firstPathKey issue),
             loc_column = 0\<rparr>"
    by blast
  have o: "opts_type options = ty" "opts_config options = config"
    by (simp_all add: options_def docsOptions_def)
  have pats': "patterns_length (effectivePatterns (opts_config options)) \<noteq> 0"
    using pats by (simp add: o)
  have run: "generateDocuments env options w = (Inl e, w')"
    unfolding generateDocuments_nonempty [OF pats'] w1_def [symmetric] loop by simp
  have "generateAll env config ((ty, def) # after) gens w = (Inl e, w')"
    using run by (simp add: options_def)
  then have "generateAll env config (definitions config) [] w0 = (Inl e, w')"
    unfolding defs generateAll_append earlier by simp
  then have inner: "generateInner env config w0 = (Inl e, w')"
    by (simp add: generateInner_def)
  have eff': "effects w' = effects w @ Mkdir (generatedDir env options) # written @ [ReadFile g]"
    by (simp add: eff w1_def)
  from g sch failure run inner eff' doc show ?thesis unfolding e_def o by blast
qed

text \<open>
  The line of the error is the line of the field only when the extraction carries the
  raw block, which is the first time the process extracts these contents.
\<close>

lemma rawMatterOf_first:
  "readFile env file \<noteq> [] \<Longrightarrow> readFile env file \<notin> memo \<Longrightarrow>
   rawMatterOf env memo file = Some (pm_matter (parseMatter env (readFile env file)))"
  by (simp add: rawMatterOf_def grayMatter_def)

lemma rawMatterOf_again: "readFile env file \<in> memo \<Longrightarrow> rawMatterOf env memo file = None"
  by (simp add: rawMatterOf_def grayMatter_def)

text \<open>
  C3. In development mode the site has been generated, and \<open>posts/b.md\<close> is then saved
  with a \<open>title\<close> that is a number, on line 3 of the file. The regeneration for that
  event throws the validation error of \<open>b.md\<close> with the field named in its message, line
  3 and column 0, and the handler logs it. The file stays as it is and is saved again:
  the regeneration validates it again (a failed file never enters the cache), the
  metadata extractor answers from its memo table with a result that has no \<open>matter\<close>
  property, \<open>getYamlErrorLine\<close> receives \<open>undefined\<close>, and the error now carries line 0,
  which is not the line of \<open>title\<close> in the raw metadata text.
\<close>

theorem fatal_validation_line_lost_on_reparse:
  "readFile exEnvInvalid ''/site/content/posts/b.md''
     = js_join [CHR 0x0A] [''---'', ''draft: true'', ''title: 42'', ''---'', ''Hello'']
   \<and> fst (generateDocuments exEnvInvalid exOptions exWatched)
       = Inl (InvalidDocumentFrontmatterError
                ''posts -> /site/content/posts/b.md frontmatter does not match schema: title: Expected string''
                \<lparr>loc_file = ''/site/content/posts/b.md'', loc_line = 3, loc_column = 0\<rparr>)
   \<and> last (effects exFirstReport)
       = LogWarn (InvalidDocumentFrontmatterError
                ''posts -> /site/content/posts/b.md frontmatter does not match schema: title: Expected string''
                \<lparr>loc_file = ''/site/content/posts/b.md'', loc_line = 3, loc_column = 0\<rparr>)
   \<and> fst (generateDocuments exEnvInvalid exOptions exFirstReport)
       = Inl (InvalidDocumentFrontmatterError
                ''posts -> /site/content/posts/b.md frontmatter does not match schema: title: Expected string''
                \<lparr>loc_file = ''/site/content/posts/b.md'', loc_line = 0, loc_column = 0\<rparr>)
   \<and> last (effects (snd (onWatchEvent exEnvInvalid exConfig Change (Some ''posts/b.md'')
                            exFirstReport)))
       = LogWarn (InvalidDocumentFrontmatterError
                ''posts -> /site/content/posts/b.md frontmatter does not match schema: title: Expected string''
                \<lparr>loc_file = ''/site/content/posts/b.md'', loc_line = 0, loc_column = 0\<rparr>)"
proof (intro conjI)
  show "readFile exEnvInvalid ''/site/content/posts/b.md''
          = js_join [CHR 0x0A] [''---'', ''draft: true'', ''title: 42'', ''---'', ''Hello'']"
    by code_simp
  show "fst (generateDocuments exEnvInvalid exOptions exWatched)
       = Inl (InvalidDocumentFrontmatterError
                ''posts -> /site/content/posts/b.md frontmatter does not match schema: title: Expected string''
                \<lparr>loc_file = ''/site/content/posts/b.md'', loc_line = 3, loc_column = 0\<rparr>)"
    by code_simp
  show "last (effects exFirstReport)
       = LogWarn (InvalidDocumentFrontmatterError
                ''posts -> /site/content/posts/b.md frontmatter does not match schema: title: Expected string''
                \<lparr>loc_file = ''/site/content/posts/b.md'', loc_line = 3, loc_column = 0\<rparr>)"
    by code_simp
  show "fst (generateDocuments exEnvInvalid exOptions exFirstReport)
       = Inl (InvalidDocumentFrontmatterError
                ''posts -> /site/content/posts/b.md frontmatter does not match schema: title: Expected string''
                \<lparr>loc_file = ''/site/content/posts/b.md'', loc_line = 0, loc_column = 0\<rparr>)"
    by code_simp
  show "last (effects (snd (onWatchEvent exEnvInvalid exConfig Change (Some ''posts/b.md'')
                            exFirstReport)))
       = LogWarn (InvalidDocumentFrontmatterError
                ''posts -> /site/content/posts/b.md frontmatter does not match schema: title: Expected string''
                \<lparr>loc_file = ''/site/content/posts/b.md'', loc_line = 0, loc_column = 0\<rparr>)"
    by code_simp
qed

section \<open>The watch handler and the cache\<close>

lemma touchesOnly_refl: "touchesOnly env files w w"
  by (simp add: touchesOnly_def)

lemma touchesOnly_log:
  assumes "touchesOnly env files w w'" and "readFiles xs = []"
  shows "touchesOnly env files w (w'\<lparr>effects := effects w' @ xs\<rparr>)"
proof -
  from assms(1) obtain new where
    u: "uniques (cache w') = uniques (cache w)"
    and i: "\<forall>g. g \<notin> set files \<or> cacheHit env w g \<longrightarrow> items (cache w') g = items (cache w) g"
    and e: "effects w' = effects w @ new"
    and r: "set (readFiles new) \<subseteq> set files \<inter> {f. \<not> cacheHit env w f}"
    unfolding touchesOnly_def by blast
  have "effects (w'\<lparr>effects := effects w' @ xs\<rparr>) = effects w @ (new @ xs)" by (simp add: e)
  moreover have "set (readFiles (new @ xs)) \<subseteq> set files \<inter> {f. \<not> cacheHit env w f}"
    using r assms(2) by (simp add: readFiles_append)
  ultimately show ?thesis unfolding touchesOnly_def using u i by (intro conjI exI [of _ "new @ xs"]) simp_all
qed

lemma touchesOnly_log_before:
  assumes "touchesOnly env files (w\<lparr>effects := effects w @ xs\<rparr>) w'" and "readFiles xs = []"
  shows "touchesOnly env files w w'"
proof -
  let ?w = "w\<lparr>effects := effects w @ xs\<rparr>"
  have c: "cache ?w = cache w" by simp
  have h: "cacheHit env ?w = cacheHit env w" by (rule ext) (rule cacheHit_same_cache [OF c])
  from assms(1) obtain new where
    u: "uniques (cache w') = uniques (cache w)"
    and i: "\<forall>g. g \<notin> set files \<or> cacheHit env w g \<longrightarrow> items (cache w') g = items (cache w) g"
    and e: "effects w' = effects ?w @ new"
    and r: "set (readFiles new) \<subseteq> set files \<inter> {f. \<not> cacheHit env w f}"
    unfolding touchesOnly_def h by auto
  have "effects w' = effects w @ (xs @ new)" by (simp add: e)
  moreover have "set (readFiles (xs @ new)) \<subseteq> set files \<inter> {f. \<not> cacheHit env w f}"
    using r assms(2) by (simp add: readFiles_append)
  ultimately show ?thesis unfolding touchesOnly_def using u i by (intro conjI exI [of _ "xs @ new"]) simp_all
qed

lemma touchesOnly_trans:
  assumes a: "touchesOnly env fs w w1" and b: "touchesOnly env gs w1 w2"
  shows "touchesOnly env (fs @ gs) w w2"
proof -
  from a obtain new1 where
    u1: "uniques (cache w1) = uniques (cache w)"
    and i1: "\<forall>g. g \<notin> set fs \<or> cacheHit env w g \<longrightarrow> items (cache w1) g = items (cache w) g"
    and e1: "effects w1 = effects w @ new1"
    and r1: "set (readFiles new1) \<subseteq> set fs \<inter> {f. \<not> cacheHit env w f}"
    unfolding touchesOnly_def by blast
  from b obtain new2 where
    u2: "uniques (cache w2) = uniques (cache w1)"
    and i2: "\<forall>g. g \<notin> set gs \<or> cacheHit env w1 g \<longrightarrow> items (cache w2) g = items (cache w1) g"
    and e2: "effects w2 = effects w1 @ new2"
    and r2: "set (readFiles new2) \<subseteq> set gs \<inter> {f. \<not> cacheHit env w1 f}"
    unfolding touchesOnly_def by blast
  have keep: "cacheHit env w1 g" if "cacheHit env w g" for g
    using that i1 by (simp add: cacheHit_def)
  have i: "\<forall>g. g \<notin> set (fs @ gs) \<or> cacheHit env w g \<longrightarrow> items (cache w2) g = items (cache w) g"
    using i1 i2 keep by auto
  have e: "effects w2 = effects w @ (new1 @ new2)" by (simp add: e1 e2)
  have r: "set (readFiles (new1 @ new2)) \<subseteq> set (fs @ gs) \<inter> {f. \<not> cacheHit env w f}"
    using r1 r2 keep by (auto simp: readFiles_append)
  show ?thesis unfolding touchesOnly_def using u1 u2 i e r
    by (intro conjI exI [of _ "new1 @ new2"]) simp_all
qed

lemma processFiles_touchesOnly:
  assumes "processFiles env options dir files st w = (r, w')"
  shows "touchesOnly env files w w'"
proof -
  from processFiles_frame [OF assms] show ?thesis unfolding touchesOnly_def by blast
qed

lemma generateDocuments_touchesOnly:
  assumes run: "generateDocuments env options w = (r, w')"
  shows "touchesOnly env (discoveredFiles env options) w w'"
proof (cases "patterns_length (effectivePatterns (opts_config options)) = 0")
  case True
  with run have "w' = w" by (simp add: generateDocuments_empty)
  then show ?thesis by (simp add: touchesOnly_refl)
next
  case False
  let ?w0 = "w\<lparr>effects := effects w @ [Mkdir (generatedDir env options)]\<rparr>"
  obtain r0 w2 where loop:
    "processFiles env options (definitionDirOf env options) (discoveredFiles env options)
       \<lparr>n_cached = 0, n_generated = 0, docs = []\<rparr> ?w0 = (r0, w2)"
    by (cases "processFiles env options (definitionDirOf env options) (discoveredFiles env options)
       \<lparr>n_cached = 0, n_generated = 0, docs = []\<rparr> ?w0")
  have t: "touchesOnly env (discoveredFiles env options) w w2"
    by (rule touchesOnly_log_before [OF processFiles_touchesOnly [OF loop]]) simp
  show ?thesis
  proof (cases r0)
    case (Inl e)
    with run loop have "w' = w2" by (simp add: generateDocuments_nonempty [OF False])
    with t show ?thesis by simp
  next
    case (Inr st)
    with run loop have "w' = w2\<lparr>effects := effects w2 @
              [WriteCollection (generatedPath env options ''index.json'') (Object_values (docs st)),
               WriteImports (generatedPath env options ''index.mjs'')
                 (importModule env (opts_type options) (definitionDirOf env options)
                    (Object_keys (docs st)))]\<rparr>"
      by (simp add: generateDocuments_nonempty [OF False])
    then show ?thesis using touchesOnly_log [OF t] by simp
  qed
qed

lemma generateAll_touchesOnly:
  "generateAll env config defs gens w = (r, w') \<Longrightarrow>
   touchesOnly env (discoveredIn env config defs) w w'"
proof (induction defs arbitrary: gens w)
  case Nil
  then show ?case by (simp add: touchesOnly_refl)
next
  case (Cons d defs)
  obtain ty "def" where d: "d = (ty, def)" by (cases d)
  obtain r1 w1 where step: "generateDocuments env (docsOptions config ty def) w = (r1, w1)"
    by (cases "generateDocuments env (docsOptions config ty def) w")
  note t1 = generateDocuments_touchesOnly [OF step]
  have split: "discoveredIn env config (d # defs)
                 = discoveredFiles env (docsOptions config ty def) @ discoveredIn env config defs"
    by (simp add: discoveredIn_def d)
  show ?case
  proof (cases r1)
    case (Inl e)
    with Cons.prems step d have "w' = w1" by simp
    with touchesOnly_trans [OF t1 touchesOnly_refl [of env "discoveredIn env config defs"]]
    show ?thesis by (simp add: split)
  next
    case (Inr g)
    with Cons.prems step d
    have "generateAll env config defs (obj_set ty g gens) w1 = (r, w')" by simp
    from touchesOnly_trans [OF t1 Cons.IH [OF this]] show ?thesis by (simp add: split)
  qed
qed

lemma generateInner_touchesOnly:
  assumes run: "generateInner env config w = (r, w')"
  shows "touchesOnly env (allDiscovered env config) w w'"
proof -
  obtain r1 w1 where all: "generateAll env config (definitions config) [] w = (r1, w1)"
    by (cases "generateAll env config (definitions config) [] w")
  from generateAll_touchesOnly [OF all]
  have t: "touchesOnly env (allDiscovered env config) w w1" by (simp add: allDiscovered_def)
  show ?thesis
  proof (cases r1)
    case (Inl e)
    with run all have "w' = w1" by (simp add: generateInner_def)
    with t show ?thesis by simp
  next
    case (Inr gens)
    show ?thesis
    proof (cases "sumCounts (Object_values gens)")
      case (Inl e)
      with run all Inr have "w' = w1\<lparr>effects := effects w1 @ [OutputAssets, CacheSave]\<rparr>"
        by (simp add: generateInner_def)
      then show ?thesis using touchesOnly_log [OF t] by simp
    next
      case (Inr s)
      with run all \<open>r1 = Inr gens\<close>
      have "w' = w1\<lparr>effects := effects w1 @ [OutputAssets, CacheSave, LogGenerated (total s) (cached s)]\<rparr>"
        by (simp add: generateInner_def)
      then show ?thesis using touchesOnly_log [OF t] by simp
    qed
  qed
qed


text \<open>
  What a pass does read. When every file other than \<open>g\<close> is served from the cache, the
  pass reads \<open>g\<close>, once, exactly when \<open>g\<close> is among the files and is not served from the
  cache; after that iteration \<open>g\<close> is served from the cache too.
\<close>

lemma processFile_miss_reads:
  assumes "\<not> cacheHit env w f" and "processFile env options dir f st w = (r, w')"
  shows "\<exists>new. effects w' = effects w @ new \<and> readFiles new = [f]"
proof (cases "validateFile env options f (matterCache w)")
  case (Inl e)
  from assms(2) [unfolded processFile_invalid [OF assms(1) Inl]]
  have "effects w' = effects w @ [ReadFile f]" by auto
  then show ?thesis by simp
next
  case (Inr d)
  from assms(2) [unfolded processFile_valid [OF assms(1) Inr]]
  have "effects w' = effects w @ [ReadFile f,
          WriteDocument (generatedPath env options (idToFileName env (relative env dir f) @ ''.json'')) d]"
    by auto
  then show ?thesis by simp
qed

lemma processFiles_reads:
  assumes "\<forall>f\<in>set files. f \<noteq> g \<longrightarrow> cacheHit env w f"
      and "processFiles env options dir files st w = (r, w')"
  shows "\<exists>new. effects w' = effects w @ new
           \<and> readFiles new = (if g \<in> set files \<and> \<not> cacheHit env w g then [g] else [])"
  using assms
proof (induction files arbitrary: st w)
  case Nil
  then show ?case by simp
next
  case (Cons f files)
  from Cons.prems(1) have others: "\<forall>x\<in>set files. x \<noteq> g \<longrightarrow> cacheHit env w x" by simp
  show ?case
  proof (cases "cacheHit env w f")
    case True
    with Cons.prems(2) obtain st1 where
      rest: "processFiles env options dir files st1 w = (r, w')"
      by (simp add: processFile_hit)
    from Cons.IH [OF others rest] obtain new where
      e: "effects w' = effects w @ new"
      and rd: "readFiles new = (if g \<in> set files \<and> \<not> cacheHit env w g then [g] else [])"
      by blast
    from True have "(g \<in> set (f # files) \<and> \<not> cacheHit env w g)
                      \<longleftrightarrow> (g \<in> set files \<and> \<not> cacheHit env w g)"
      by auto
    with e rd show ?thesis by auto
  next
    case False
    with Cons.prems(1) have fg: "f = g" by auto
    obtain r1 w1 where step: "processFile env options dir f st w = (r1, w1)"
      by (cases "processFile env options dir f st w")
    from processFile_miss_reads [OF False step] obtain new1 where
      e1: "effects w1 = effects w @ new1" and rd1: "readFiles new1 = [f]"
      by blast
    show ?thesis
    proof (cases r1)
      case (Inl e)
      with Cons.prems(2) step have "w' = w1" by simp
      with e1 rd1 False fg show ?thesis by auto
    next
      case (Inr st1)
      with Cons.prems(2) step have rest: "processFiles env options dir files st1 w1 = (r, w')"
        by simp
      from processFile_success(1) [OF step [unfolded Inr]] fg have g1: "cacheHit env w1 g" by simp
      have others1: "\<forall>x\<in>set files. x \<noteq> g \<longrightarrow> cacheHit env w1 x"
      proof (intro ballI impI)
        fix x assume "x \<in> set files" "x \<noteq> g"
        with others have h: "cacheHit env w x" by blast
        from processFile_frame(3) [OF step h] have "items (cache w1) x = items (cache w) x" .
        with h show "cacheHit env w1 x" by (simp add: cacheHit_def)
      qed
      from Cons.IH [OF others1 rest] g1 obtain new2 where
        e2: "effects w' = effects w1 @ new2" and rd2: "readFiles new2 = []"
        by auto
      have "effects w' = effects w @ (new1 @ new2)" by (simp add: e1 e2)
      moreover have "readFiles (new1 @ new2) = [g]" by (simp add: readFiles_append rd1 rd2 fg)
      ultimately show ?thesis using False fg by (intro exI [of _ "new1 @ new2"]) simp
    qed
  qed
qed

lemma generateDocuments_reads:
  assumes others: "\<forall>f\<in>set (discoveredFiles env options). f \<noteq> g \<longrightarrow> cacheHit env w f"
      and run: "generateDocuments env options w = (r, w')"
  shows "\<exists>new. effects w' = effects w @ new
           \<and> readFiles new =
               (if patterns_length (effectivePatterns (opts_config options)) \<noteq> 0
                   \<and> g \<in> set (discoveredFiles env options) \<and> \<not> cacheHit env w g
                then [g] else [])"
proof (cases "patterns_length (effectivePatterns (opts_config options)) = 0")
  case True
  with run have "w' = w" by (simp add: generateDocuments_empty)
  with True show ?thesis by simp
next
  case False
  let ?w0 = "w\<lparr>effects := effects w @ [Mkdir (generatedDir env options)]\<rparr>"
  have c: "cache ?w0 = cache w" by simp
  have h: "cacheHit env ?w0 = cacheHit env w" by (rule ext) (rule cacheHit_same_cache [OF c])
  obtain r0 w2 where loop:
    "processFiles env options (definitionDirOf env options) (discoveredFiles env options)
       \<lparr>n_cached = 0, n_generated = 0, docs = []\<rparr> ?w0 = (r0, w2)"
    by (cases "processFiles env options (definitionDirOf env options) (discoveredFiles env options)
       \<lparr>n_cached = 0, n_generated = 0, docs = []\<rparr> ?w0")
  from others have others0: "\<forall>f\<in>set (discoveredFiles env options). f \<noteq> g \<longrightarrow> cacheHit env ?w0 f"
    unfolding h .
  from processFiles_reads [OF others0 loop] obtain new where
    e: "effects w2 = effects ?w0 @ new"
    and rd: "readFiles new = (if g \<in> set (discoveredFiles env options) \<and> \<not> cacheHit env w g
                              then [g] else [])"
    unfolding h by blast
  obtain extra where e': "effects w' = effects w2 @ extra" and x: "readFiles extra = []"
  proof (cases r0)
    case (Inl e)
    with run loop have "w' = w2" by (simp add: generateDocuments_nonempty [OF False])
    then have "effects w' = effects w2 @ []" by simp
    then show ?thesis by (rule that) simp
  next
    case (Inr st)
    with run loop have "w' = w2\<lparr>effects := effects w2 @
              [WriteCollection (generatedPath env options ''index.json'') (Object_values (docs st)),
               WriteImports (generatedPath env options ''index.mjs'')
                 (importModule env (opts_type options) (definitionDirOf env options)
                    (Object_keys (docs st)))]\<rparr>"
      by (simp add: generateDocuments_nonempty [OF False])
    then have "effects w' = effects w2 @
              [WriteCollection (generatedPath env options ''index.json'') (Object_values (docs st)),
               WriteImports (generatedPath env options ''index.mjs'')
                 (importModule env (opts_type options) (definitionDirOf env options)
                    (Object_keys (docs st)))]"
      by simp
    then show ?thesis by (rule that) simp
  qed
  have "effects w' = effects w @ ([Mkdir (generatedDir env options)] @ new @ extra)"
    by (simp add: e' e)
  moreover have "readFiles ([Mkdir (generatedDir env options)] @ new @ extra) = readFiles new"
    by (simp add: readFiles_append x)
  ultimately show ?thesis using rd False
    by (intro exI [of _ "[Mkdir (generatedDir env options)] @ new @ extra"]) simp
qed

lemma generateDocuments_hits_complete:
  assumes ne: "patterns_length (effectivePatterns (opts_config options)) \<noteq> 0"
      and hits: "\<forall>f\<in>set (discoveredFiles env options). cacheHit env w f"
  shows "\<exists>c w'. generateDocuments env options w = (Inr c, w')"
proof -
  let ?w0 = "w\<lparr>effects := effects w @ [Mkdir (generatedDir env options)]\<rparr>"
  have c: "cache ?w0 = cache w" by simp
  have h: "\<forall>f\<in>set (discoveredFiles env options). cacheHit env ?w0 f"
    using hits by (simp add: cacheHit_same_cache [OF c])
  show ?thesis
    unfolding generateDocuments_nonempty [OF ne] processFiles_all_hits [OF h] by simp
qed

lemma touchesOnly_hit: "touchesOnly env files w w' \<Longrightarrow> cacheHit env w f \<Longrightarrow> cacheHit env w' f"
  by (simp add: touchesOnly_def cacheHit_def)

lemma touchesOnly_outside:
  "touchesOnly env files w w' \<Longrightarrow> f \<notin> set files \<Longrightarrow> cacheHit env w' f = cacheHit env w f"
  by (simp add: touchesOnly_def cacheHit_def)

lemma opts_config_docsOptions: "opts_config (docsOptions config ty def) = config"
  by (simp add: docsOptions_def)

lemma generateAll_reads:
  assumes "\<forall>f\<in>set (discoveredIn env config defs). f \<noteq> g \<longrightarrow> cacheHit env w f"
      and "generateAll env config defs gens w = (r, w')"
  shows "\<exists>new. effects w' = effects w @ new
           \<and> readFiles new =
               (if patterns_length (effectivePatterns config) \<noteq> 0
                   \<and> g \<in> set (discoveredIn env config defs) \<and> \<not> cacheHit env w g
                then [g] else [])"
  using assms
proof (induction defs arbitrary: gens w)
  case Nil
  then show ?case by (simp add: discoveredIn_def)
next
  case (Cons d defs)
  obtain ty "def" where d: "d = (ty, def)" by (cases d)
  let ?options = "docsOptions config ty def"
  let ?files = "discoveredFiles env ?options"
  let ?pats = "patterns_length (effectivePatterns config) \<noteq> 0"
  have split: "discoveredIn env config (d # defs) = ?files @ discoveredIn env config defs"
    by (simp add: discoveredIn_def d)
  from Cons.prems(1) have others1: "\<forall>f\<in>set ?files. f \<noteq> g \<longrightarrow> cacheHit env w f"
    and others2: "\<forall>f\<in>set (discoveredIn env config defs). f \<noteq> g \<longrightarrow> cacheHit env w f"
    unfolding split by simp_all
  obtain r1 w1 where step: "generateDocuments env ?options w = (r1, w1)"
    by (cases "generateDocuments env ?options w")
  from generateDocuments_reads [OF others1 step] obtain new1 where
    e1: "effects w1 = effects w @ new1"
    and rd1: "readFiles new1 = (if ?pats \<and> g \<in> set ?files \<and> \<not> cacheHit env w g then [g] else [])"
    unfolding opts_config_docsOptions by blast
  note t1 = generateDocuments_touchesOnly [OF step]
  show ?case
  proof (cases r1)
    case (Inl e)
    with Cons.prems(2) step d have w': "w' = w1" by simp
    have "\<not> ?pats \<or> (g \<in> set ?files \<and> \<not> cacheHit env w g)"
    proof (rule ccontr)
      assume "\<not> (\<not> ?pats \<or> (g \<in> set ?files \<and> \<not> cacheHit env w g))"
      then have ne: "patterns_length (effectivePatterns (opts_config ?options)) \<noteq> 0"
        and hits: "\<forall>f\<in>set ?files. cacheHit env w f"
        using others1 unfolding opts_config_docsOptions by auto
      from generateDocuments_hits_complete [OF ne hits] step Inl show False by simp
    qed
    then have "readFiles new1 = (if ?pats \<and> g \<in> set (discoveredIn env config (d # defs))
                                     \<and> \<not> cacheHit env w g then [g] else [])"
      unfolding rd1 split by auto
    with e1 w' show ?thesis by blast
  next
    case (Inr c)
    with Cons.prems(2) step d
    have rest: "generateAll env config defs (obj_set ty c gens) w1 = (r, w')" by simp
    from generateDocuments_Inr_patterns [OF step [unfolded Inr]] have pats: ?pats
      unfolding opts_config_docsOptions .
    have others2': "\<forall>f\<in>set (discoveredIn env config defs). f \<noteq> g \<longrightarrow> cacheHit env w1 f"
      using others2 touchesOnly_hit [OF t1] by blast
    from Cons.IH [OF others2' rest] obtain new2 where
      e2: "effects w' = effects w1 @ new2"
      and rd2: "readFiles new2 = (if ?pats \<and> g \<in> set (discoveredIn env config defs)
                                     \<and> \<not> cacheHit env w1 g then [g] else [])"
      by blast
    have e: "effects w' = effects w @ (new1 @ new2)" by (simp add: e1 e2)
    have "readFiles (new1 @ new2) = (if ?pats \<and> g \<in> set (discoveredIn env config (d # defs))
                                        \<and> \<not> cacheHit env w g then [g] else [])"
    proof (cases "g \<in> set ?files")
      case True
      from generateDocuments_coherent [OF step [unfolded Inr]] True have "cacheHit env w1 g" by blast
      then have "readFiles new2 = []" by (simp add: rd2)
      with True show ?thesis by (simp add: readFiles_append rd1 split)
    next
      case False
      from touchesOnly_outside [OF t1 False] have "cacheHit env w1 g = cacheHit env w g" .
      with False show ?thesis by (simp add: readFiles_append rd1 rd2 split)
    qed
    with e show ?thesis by blast
  qed
qed

lemma generateAll_coherent:
  "generateAll env config defs gens w = (Inr gens', w') \<Longrightarrow>
   \<forall>f\<in>set (discoveredIn env config defs). cacheHit env w' f"
proof (induction defs arbitrary: gens w)
  case Nil
  then show ?case by (simp add: discoveredIn_def)
next
  case (Cons d defs)
  obtain ty "def" where d: "d = (ty, def)" by (cases d)
  have split: "discoveredIn env config (d # defs)
                 = discoveredFiles env (docsOptions config ty def) @ discoveredIn env config defs"
    by (simp add: discoveredIn_def d)
  from Cons.prems d obtain c w1 where
    step: "generateDocuments env (docsOptions config ty def) w = (Inr c, w1)"
    and rest: "generateAll env config defs (obj_set ty c gens) w1 = (Inr gens', w')"
    by (auto split: prod.splits sum.splits)
  from generateDocuments_coherent [OF step]
  have "\<forall>f\<in>set (discoveredFiles env (docsOptions config ty def)). cacheHit env w' f"
    using touchesOnly_hit [OF generateAll_touchesOnly [OF rest]] by blast
  with Cons.IH [OF rest] show ?case unfolding split by auto
qed

text \<open>The full pass: what it appends after the types' passes reads no file.\<close>

lemma generateInner_cases:
  assumes "generateInner env config w = (r, w')"
  obtains r1 w1 extra where
    "generateAll env config (definitions config) [] w = (r1, w1)"
    "effects w' = effects w1 @ extra" "readFiles extra = []" "cache w' = cache w1"
    "isl r1 \<longrightarrow> isl r"
proof -
  obtain r1 w1 where all: "generateAll env config (definitions config) [] w = (r1, w1)"
    by (cases "generateAll env config (definitions config) [] w")
  show thesis
  proof (cases r1)
    case (Inl e)
    with assms all have "w' = w1" "r = Inl e" by (simp_all add: generateInner_def)
    with Inl have "effects w' = effects w1 @ []" "cache w' = cache w1" "isl r1 \<longrightarrow> isl r"
      by simp_all
    from that [OF all this(1) _ this(2) this(3)] show ?thesis by simp
  next
    case (Inr gens)
    show ?thesis
    proof (cases "sumCounts (Object_values gens)")
      case (Inl e)
      with assms all Inr have "w' = w1\<lparr>effects := effects w1 @ [OutputAssets, CacheSave]\<rparr>"
        by (simp add: generateInner_def)
      then have "effects w' = effects w1 @ [OutputAssets, CacheSave]" "cache w' = cache w1"
        by simp_all
      from that [OF all this(1) _ this(2)] Inr show ?thesis by simp
    next
      case (Inr s)
      with assms all \<open>r1 = Inr gens\<close>
      have "w' = w1\<lparr>effects := effects w1 @ [OutputAssets, CacheSave, LogGenerated (total s) (cached s)]\<rparr>"
        by (simp add: generateInner_def)
      then have "effects w' = effects w1 @ [OutputAssets, CacheSave, LogGenerated (total s) (cached s)]"
        "cache w' = cache w1"
        by simp_all
      from that [OF all this(1) _ this(2)] \<open>r1 = Inr gens\<close> show ?thesis by simp
    qed
  qed
qed

lemma generateInner_reads:
  assumes others: "\<forall>f\<in>set (allDiscovered env config). f \<noteq> g \<longrightarrow> cacheHit env w f"
      and run: "generateInner env config w = (r, w')"
  shows "\<exists>new. effects w' = effects w @ new
           \<and> readFiles new =
               (if patterns_length (effectivePatterns config) \<noteq> 0
                   \<and> g \<in> set (allDiscovered env config) \<and> \<not> cacheHit env w g
                then [g] else [])"
proof -
  from run obtain r1 w1 extra where
    all: "generateAll env config (definitions config) [] w = (r1, w1)"
    and e': "effects w' = effects w1 @ extra" and x: "readFiles extra = []"
    by (rule generateInner_cases)
  from generateAll_reads [OF others [unfolded allDiscovered_def] all] obtain new where
    e: "effects w1 = effects w @ new"
    and rd: "readFiles new =
               (if patterns_length (effectivePatterns config) \<noteq> 0
                   \<and> g \<in> set (allDiscovered env config) \<and> \<not> cacheHit env w g
                then [g] else [])"
    unfolding allDiscovered_def by blast
  have "effects w' = effects w @ (new @ extra)" by (simp add: e' e)
  moreover have "readFiles (new @ extra) = readFiles new" by (simp add: readFiles_append x)
  ultimately show ?thesis using rd by (intro exI [of _ "new @ extra"]) simp
qed

lemma generateInner_coherent:
  assumes "generateInner env config w = (Inr u, w')"
  shows "\<forall>f\<in>set (allDiscovered env config). cacheHit env w' f"
proof -
  from assms obtain r1 w1 where
    all: "generateAll env config (definitions config) [] w = (r1, w1)"
    and c: "cache w' = cache w1" and ok: "isl r1 \<longrightarrow> isl (Inr u :: error + unit)"
    by (rule generateInner_cases)
  from ok obtain gens where "r1 = Inr gens" by (cases r1) simp_all
  from generateAll_coherent [OF all [unfolded this]] show ?thesis
    unfolding allDiscovered_def by (simp add: cacheHit_same_cache [OF c])
qed

lemma readFiles_newEffects:
  "effects w' = effects w @ new \<Longrightarrow> readFiles (newEffects w w') = readFiles new"
  by (simp add: newEffects_def)

lemma onWatchEvent_content:
  assumes "eventName \<noteq> AddDir \<and> eventName \<noteq> UnlinkDir"
      and "changedPath env config name \<notin> set (configImports config)"
  shows "onWatchEvent env config eventName (Some name) w =
           (case generateInner env config
                   ((withoutUniquesOf (changedPath env config name) w)
                      \<lparr>effects := effects w @ [LogChanged (changedPath env config name)]\<rparr>) of
              (Inl e, w3) \<Rightarrow> (Regenerated, w3\<lparr>effects := effects w3 @ [LogWarn e]\<rparr>)
            | (Inr u, w3) \<Rightarrow> (Regenerated, w3))"
  using assms by (simp add: onWatchEvent_def changedPath_def withoutUniquesOf_def Let_def)

text \<open>
  C7, as the code has it. On a file event other than \<open>addDir\<close> and \<open>unlinkDir\<close>, for a
  path that is not a configuration dependency, the handler deletes from \<open>cache.uniques\<close>
  every entry whose value is the changed path, leaves \<open>cache.items\<close> as it is, and runs
  the full pass on that cache, logging its error if it throws. In the pass a file is read
  and recompiled only when it is discovered and its entry is missing or does not match,
  the entry of a file that is not discovered or whose entry matched stays as it was, and
  after a pass that completes every discovered file is served from the cache. When every
  other discovered file is served from the cache, the changed path is the one file read
  and recompiled, exactly when it is still discovered and its own entry is missing or
  does not match (and the pattern list is not empty); otherwise no file is; and every
  other entry of \<open>cache.items\<close> stays as it was.
\<close>

theorem watch_event_regenerates:
  assumes qualifying: "eventName \<noteq> AddDir \<and> eventName \<noteq> UnlinkDir"
      and content: "changedPath env config name \<notin> set (configImports config)"
  shows "\<exists>r w2 w'.
           generateInner env config
             ((withoutUniquesOf (changedPath env config name) w)
                \<lparr>effects := effects w @ [LogChanged (changedPath env config name)]\<rparr>) = (r, w2)
           \<and> w' = (case r of Inl e \<Rightarrow> w2\<lparr>effects := effects w2 @ [LogWarn e]\<rparr> | Inr u \<Rightarrow> w2)
           \<and> onWatchEvent env config eventName (Some name) w = (Regenerated, w')
           \<and> uniques (cache w')
               = filter (\<lambda>(key, value). value \<noteq> changedPath env config name) (uniques (cache w))
           \<and> items (cache (withoutUniquesOf (changedPath env config name) w)) = items (cache w)
           \<and> (\<forall>f. f \<notin> set (allDiscovered env config) \<or> cacheHit env w f
                  \<longrightarrow> items (cache w') f = items (cache w) f)
           \<and> (\<forall>f\<in>set (readFiles (newEffects w w')).
                  f \<in> set (allDiscovered env config) \<and> \<not> cacheHit env w f)
           \<and> (\<not> isl r \<longrightarrow> (\<forall>f\<in>set (allDiscovered env config). cacheHit env w' f))
           \<and> ((\<forall>f\<in>set (allDiscovered env config).
                   f \<noteq> changedPath env config name \<longrightarrow> cacheHit env w f)
                \<longrightarrow> readFiles (newEffects w w')
                      = (if patterns_length (effectivePatterns config) \<noteq> 0
                            \<and> changedPath env config name \<in> set (allDiscovered env config)
                            \<and> \<not> cacheHit env w (changedPath env config name)
                         then [changedPath env config name] else [])
                    \<and> (\<forall>f. f \<noteq> changedPath env config name
                           \<longrightarrow> items (cache w') f = items (cache w) f))"
proof -
  let ?path = "changedPath env config name"
  define w1 where "w1 = (withoutUniquesOf ?path w)\<lparr>effects := effects w @ [LogChanged ?path]\<rparr>"
  obtain r w2 where run: "generateInner env config w1 = (r, w2)"
    by (cases "generateInner env config w1")
  define w' where "w' = (case r of Inl e \<Rightarrow> w2\<lparr>effects := effects w2 @ [LogWarn e]\<rparr> | Inr u \<Rightarrow> w2)"
  have i0: "items (cache (withoutUniquesOf ?path w)) = items (cache w)"
    by (simp add: withoutUniquesOf_def)
  have i1: "items (cache w1) = items (cache w)" by (simp add: w1_def withoutUniquesOf_def)
  have u1: "uniques (cache w1) = filter (\<lambda>(key, value). value \<noteq> ?path) (uniques (cache w))"
    by (simp add: w1_def withoutUniquesOf_def)
  have e1: "effects w1 = effects w @ [LogChanged ?path]" by (simp add: w1_def)
  have h1: "cacheHit env w1 f = cacheHit env w f" for f by (simp add: cacheHit_def i1)
  from generateInner_touchesOnly [OF run] obtain new where
    u2: "uniques (cache w2) = uniques (cache w1)"
    and i2: "\<forall>g. g \<notin> set (allDiscovered env config) \<or> cacheHit env w g
                \<longrightarrow> items (cache w2) g = items (cache w) g"
    and e2: "effects w2 = effects w1 @ new"
    and r2: "set (readFiles new) \<subseteq> set (allDiscovered env config) \<inter> {f. \<not> cacheHit env w f}"
    unfolding touchesOnly_def h1 i1 by blast
  have c': "cache w' = cache w2" by (cases r) (simp_all add: w'_def)
  obtain extra where e': "effects w' = effects w2 @ extra" and x: "readFiles extra = []"
    by (cases r) (simp_all add: w'_def)
  have handler: "onWatchEvent env config eventName (Some name) w = (Regenerated, w')"
    unfolding onWatchEvent_content [OF qualifying content] w1_def [symmetric] run w'_def
    by (cases r) simp_all
  have us: "uniques (cache w') = filter (\<lambda>(key, value). value \<noteq> ?path) (uniques (cache w))"
    by (simp add: c' u2 u1)
  have its: "\<forall>f. f \<notin> set (allDiscovered env config) \<or> cacheHit env w f
               \<longrightarrow> items (cache w') f = items (cache w) f"
    using i2 by (simp add: c')
  have "effects w' = effects w @ ([LogChanged ?path] @ new @ extra)" by (simp add: e' e2 e1)
  then have "readFiles (newEffects w w') = readFiles ([LogChanged ?path] @ new @ extra)"
    by (rule readFiles_newEffects)
  also have "\<dots> = readFiles new" by (simp add: readFiles_append x)
  finally have rn: "readFiles (newEffects w w') = readFiles new" .
  have reads: "\<forall>f\<in>set (readFiles (newEffects w w')).
                 f \<in> set (allDiscovered env config) \<and> \<not> cacheHit env w f"
    unfolding rn using r2 by auto
  have complete: "\<not> isl r \<longrightarrow> (\<forall>f\<in>set (allDiscovered env config). cacheHit env w' f)"
  proof
    assume "\<not> isl r"
    then obtain u where r: "r = Inr u" by (cases r) simp_all
    from generateInner_coherent [OF run [unfolded r]]
    show "\<forall>f\<in>set (allDiscovered env config). cacheHit env w' f"
      by (simp add: cacheHit_same_cache [OF c'])
  qed
  have single: "readFiles (newEffects w w')
                  = (if patterns_length (effectivePatterns config) \<noteq> 0
                        \<and> ?path \<in> set (allDiscovered env config) \<and> \<not> cacheHit env w ?path
                     then [?path] else [])
                \<and> (\<forall>f. f \<noteq> ?path \<longrightarrow> items (cache w') f = items (cache w) f)"
    if coherent: "\<forall>f\<in>set (allDiscovered env config). f \<noteq> ?path \<longrightarrow> cacheHit env w f"
  proof
    from coherent have others: "\<forall>f\<in>set (allDiscovered env config). f \<noteq> ?path \<longrightarrow> cacheHit env w1 f"
      by (simp add: h1)
    from generateInner_reads [OF others run] obtain new' where
      e2': "effects w2 = effects w1 @ new'"
      and rd: "readFiles new' =
                 (if patterns_length (effectivePatterns config) \<noteq> 0
                     \<and> ?path \<in> set (allDiscovered env config) \<and> \<not> cacheHit env w ?path
                  then [?path] else [])"
      unfolding h1 by blast
    from e2 e2' have "new' = new" by simp
    with rd rn show "readFiles (newEffects w w')
                  = (if patterns_length (effectivePatterns config) \<noteq> 0
                        \<and> ?path \<in> set (allDiscovered env config) \<and> \<not> cacheHit env w ?path
                     then [?path] else [])"
      by simp
    show "\<forall>f. f \<noteq> ?path \<longrightarrow> items (cache w') f = items (cache w) f"
    proof (intro allI impI)
      fix f assume f: "f \<noteq> ?path"
      have "f \<notin> set (allDiscovered env config) \<or> cacheHit env w f"
      proof (cases "f \<in> set (allDiscovered env config)")
        case True
        with f coherent show ?thesis by blast
      next
        case False
        then show ?thesis by simp
      qed
      with its show "items (cache w') f = items (cache w) f" by blast
    qed
  qed
  from run [unfolded w1_def] w'_def handler us i0 its reads complete single
  show ?thesis by blast
qed

theorem watch_event_regenerates_witness:
  "\<exists>w'. onWatchEvent (modifyFile exEnv ''/site/content/posts/a.md'' ''1700000009999'' ''A2'')
           exConfig Change (Some ''posts/a.md'') (snd (generateInner exEnv exConfig exWorld))
         = (Regenerated, w')
       \<and> uniques (cache (snd (generateInner exEnv exConfig exWorld)))
           = [(''a-title'', ''/site/content/posts/a.md'')]
       \<and> uniques (cache w') = []
       \<and> readFiles (newEffects (snd (generateInner exEnv exConfig exWorld)) w')
           = [''/site/content/posts/a.md'']
       \<and> cachedDocument w' ''/site/content/posts/a.md'' = [(''title'', JStr ''A2''), (''slug'', JStr ''A2'')]
       \<and> items (cache w') ''/site/content/posts/b.md''
           = items (cache (snd (generateInner exEnv exConfig exWorld))) ''/site/content/posts/b.md''
       \<and> cacheHit (modifyFile exEnv ''/site/content/posts/a.md'' ''1700000009999'' ''A2'') w'
           ''/site/content/posts/a.md''"
proof -
  let ?env = "modifyFile exEnv ''/site/content/posts/a.md'' ''1700000009999'' ''A2''"
  let ?w1 = "snd (generateInner exEnv exConfig exWorld)"
  have qualifying: "Change \<noteq> AddDir \<and> Change \<noteq> UnlinkDir" by simp
  have path: "changedPath ?env exConfig ''posts/a.md'' = ''/site/content/posts/a.md''"
    by code_simp
  have content: "changedPath ?env exConfig ''posts/a.md'' \<notin> set (configImports exConfig)"
    unfolding path by (simp add: exConfig_def)
  have every: "allDiscovered ?env exConfig = [''/site/content/posts/a.md'', ''/site/content/posts/b.md'']"
    by code_simp
  have hit: "cacheHit ?env ?w1 ''/site/content/posts/b.md''"
    by code_simp
  have miss: "\<not> cacheHit ?env ?w1 ''/site/content/posts/a.md''"
    by code_simp
  have pats: "patterns_length (effectivePatterns exConfig) \<noteq> 0"
    by (simp add: effectivePatterns_def exConfig_def)
  have coherent: "\<forall>f\<in>set (allDiscovered ?env exConfig).
                    f \<noteq> changedPath ?env exConfig ''posts/a.md'' \<longrightarrow> cacheHit ?env ?w1 f"
    unfolding every path using hit by simp
  have before: "uniques (cache ?w1) = [(''a-title'', ''/site/content/posts/a.md'')]"
    by code_simp
  have doc: "cachedDocument (snd (onWatchEvent ?env exConfig Change (Some ''posts/a.md'') ?w1))
               ''/site/content/posts/a.md'' = [(''title'', JStr ''A2''), (''slug'', JStr ''A2'')]"
    by code_simp
  have ok: "\<not> isl (fst (generateInner ?env exConfig
               ((withoutUniquesOf (changedPath ?env exConfig ''posts/a.md'') ?w1)
                  \<lparr>effects := effects ?w1 @ [LogChanged (changedPath ?env exConfig ''posts/a.md'')]\<rparr>)))"
    by code_simp
  from watch_event_regenerates [OF qualifying content, of ?w1] obtain r w2 w' where
    run: "generateInner ?env exConfig
             ((withoutUniquesOf (changedPath ?env exConfig ''posts/a.md'') ?w1)
                \<lparr>effects := effects ?w1 @ [LogChanged (changedPath ?env exConfig ''posts/a.md'')]\<rparr>)
            = (r, w2)"
    and handler: "onWatchEvent ?env exConfig Change (Some ''posts/a.md'') ?w1 = (Regenerated, w')"
    and us: "uniques (cache w')
       = filter (\<lambda>(key, value). value \<noteq> changedPath ?env exConfig ''posts/a.md'') (uniques (cache ?w1))"
    and complete: "\<not> isl r \<longrightarrow> (\<forall>f\<in>set (allDiscovered ?env exConfig). cacheHit ?env w' f)"
    and single: "(\<forall>f\<in>set (allDiscovered ?env exConfig).
                   f \<noteq> changedPath ?env exConfig ''posts/a.md'' \<longrightarrow> cacheHit ?env ?w1 f)
                \<longrightarrow> readFiles (newEffects ?w1 w')
                      = (if patterns_length (effectivePatterns exConfig) \<noteq> 0
                            \<and> changedPath ?env exConfig ''posts/a.md'' \<in> set (allDiscovered ?env exConfig)
                            \<and> \<not> cacheHit ?env ?w1 (changedPath ?env exConfig ''posts/a.md'')
                         then [changedPath ?env exConfig ''posts/a.md''] else [])
                    \<and> (\<forall>f. f \<noteq> changedPath ?env exConfig ''posts/a.md''
                           \<longrightarrow> items (cache w') f = items (cache ?w1) f)"
    by blast
  from single coherent have
    reads: "readFiles (newEffects ?w1 w')
              = (if patterns_length (effectivePatterns exConfig) \<noteq> 0
                    \<and> changedPath ?env exConfig ''posts/a.md'' \<in> set (allDiscovered ?env exConfig)
                    \<and> \<not> cacheHit ?env ?w1 (changedPath ?env exConfig ''posts/a.md'')
                 then [changedPath ?env exConfig ''posts/a.md''] else [])"
    and others: "\<forall>f. f \<noteq> changedPath ?env exConfig ''posts/a.md''
                    \<longrightarrow> items (cache w') f = items (cache ?w1) f"
    by blast+
  from reads have reads': "readFiles (newEffects ?w1 w') = [''/site/content/posts/a.md'']"
    unfolding path every using pats miss by simp
  from others have b: "items (cache w') ''/site/content/posts/b.md''
                         = items (cache ?w1) ''/site/content/posts/b.md''"
    unfolding path by simp
  from ok run have "\<not> isl r" by simp
  with complete have a: "cacheHit ?env w' ''/site/content/posts/a.md''"
    unfolding every by simp
  from doc handler have d: "cachedDocument w' ''/site/content/posts/a.md''
                              = [(''title'', JStr ''A2''), (''slug'', JStr ''A2'')]"
    by simp
  from us have us': "uniques (cache w') = []" unfolding path before by simp
  from handler before us' reads' d b a show ?thesis by blast
qed

text \<open>
  The claim as stated fails for the cache entries of documents: after \<open>posts/b.md\<close> is
  deleted and its \<open>unlink\<close> event handled, the entry of \<open>cache.items\<close> for that path is
  still there, with the hash it had.
\<close>

theorem watch_invalidation_counterexample:
  "changedPath exEnvDeleted exConfig ''posts/b.md'' = ''/site/content/posts/b.md''
   \<and> ''/site/content/posts/b.md'' \<notin> set (configImports exConfig)
   \<and> fst (onWatchEvent exEnvDeleted exConfig Unlink (Some ''posts/b.md'')
             (snd (generateInner exEnv exConfig exWorld))) = Regenerated
   \<and> map_option item_hash
        (items (cache (snd (onWatchEvent exEnvDeleted exConfig Unlink (Some ''posts/b.md'')
                              (snd (generateInner exEnv exConfig exWorld)))))
           ''/site/content/posts/b.md'')
      = Some ''1700000000001''"
proof -
  have a: "changedPath exEnvDeleted exConfig ''posts/b.md'' = ''/site/content/posts/b.md''"
    by code_simp
  have b: "''/site/content/posts/b.md'' \<notin> set (configImports exConfig)"
    by (simp add: exConfig_def)
  have c: "fst (onWatchEvent exEnvDeleted exConfig Unlink (Some ''posts/b.md'')
             (snd (generateInner exEnv exConfig exWorld))) = Regenerated"
    by code_simp
  have d: "map_option item_hash
        (items (cache (snd (onWatchEvent exEnvDeleted exConfig Unlink (Some ''posts/b.md'')
                              (snd (generateInner exEnv exConfig exWorld)))))
           ''/site/content/posts/b.md'')
      = Some ''1700000000001''"
    by code_simp
  from a b c d show ?thesis by blast
qed

section \<open>The extension of an ordinary file name\<close>

lemma extname_loop_tail:
  "\<forall>c\<in>set cs. c \<noteq> CHR ''/'' \<and> c \<noteq> CHR ''.'' \<Longrightarrow> startDot s = None \<Longrightarrow>
   extname_loop (cs @ rest) s =
     extname_loop rest
       (if cs = [] \<or> endPos s \<noteq> None then s
        else s\<lparr>endPos := Some (length (cs @ rest)), matchedSlash := False\<rparr>)"
proof (induction cs arbitrary: s)
  case Nil
  then show ?case by simp
next
  case (Cons c cs)
  show ?case
  proof (cases "endPos s")
    case None
    let ?s1 = "s\<lparr>endPos := Some (length (c # cs @ rest)), matchedSlash := False\<rparr>"
    have "extname_loop ((c # cs) @ rest) s = extname_loop (cs @ rest) ?s1"
      using Cons.prems None by (simp add: Let_def)
    also have "\<dots> = extname_loop rest ?s1"
      using Cons.IH [of ?s1] Cons.prems by simp
    finally show ?thesis using None by simp
  next
    case (Some e)
    have "extname_loop ((c # cs) @ rest) s = extname_loop (cs @ rest) s"
      using Cons.prems Some by (simp add: Let_def)
    also have "\<dots> = extname_loop rest s"
      using Cons.IH [of s] Cons.prems Some by simp
    finally show ?thesis using Some by simp
  qed
qed

lemma extname_loop_dot:
  "startDot s = None \<Longrightarrow> endPos s = Some e \<Longrightarrow>
   extname_loop (CHR ''.'' # rest) s = extname_loop rest (s\<lparr>startDot := Some (length rest)\<rparr>)"
  by (simp add: Let_def)

lemma extname_loop_name:
  "\<forall>c\<in>set cs. c \<noteq> CHR ''/'' \<Longrightarrow> startDot s = Some sd \<Longrightarrow> endPos s = Some e \<Longrightarrow>
   \<exists>p. extname_loop (cs @ rest) s = extname_loop rest (s\<lparr>preDotState := p\<rparr>)
       \<and> (if cs = [] then p = preDotState s else p \<noteq> 0)"
proof (induction cs arbitrary: s)
  case Nil
  then show ?case by simp
next
  case (Cons c cs)
  define q :: int where "q = (if c = CHR ''.'' then 1 else - 1)"
  let ?s2 = "s\<lparr>preDotState := q\<rparr>"
  have same: "s\<lparr>preDotState := 1\<rparr> = s" if "preDotState s = 1"
    using that by (cases s) simp
  have step: "extname_loop ((c # cs) @ rest) s = extname_loop (cs @ rest) ?s2"
  proof (cases "c = CHR ''.''")
    case True
    show ?thesis
    proof (cases "preDotState s = 1")
      case True
      from same [OF this] have "extname_loop (cs @ rest) (s\<lparr>preDotState := 1\<rparr>)
                                  = extname_loop (cs @ rest) s" by simp
      with True \<open>c = CHR ''.''\<close> Cons.prems show ?thesis by (simp add: Let_def q_def)
    next
      case False
      with \<open>c = CHR ''.''\<close> Cons.prems show ?thesis by (simp add: Let_def q_def)
    qed
  next
    case False
    then show ?thesis using Cons.prems by (simp add: Let_def q_def)
  qed
  from Cons.IH [of ?s2] Cons.prems obtain p where
    p: "extname_loop (cs @ rest) ?s2 = extname_loop rest (?s2\<lparr>preDotState := p\<rparr>)"
    and p0: "if cs = [] then p = preDotState ?s2 else p \<noteq> 0"
    by auto
  have "p \<noteq> 0" using p0 by (auto simp: q_def split: if_splits)
  moreover have "extname_loop ((c # cs) @ rest) s = extname_loop rest (s\<lparr>preDotState := p\<rparr>)"
    using step p by simp
  ultimately show ?case by auto
qed

lemma extname_loop_slash:
  "\<not> matchedSlash s \<Longrightarrow> extname_loop (CHR ''/'' # rest) s = s\<lparr>startPart := length rest + 1\<rparr>"
  by (simp add: Let_def)

text \<open>
  The extension of an ordinary file name: for a path \<open>dir/name.ext\<close> or \<open>name.ext\<close>, with a
  non-empty \<open>name\<close> and an \<open>ext\<close> that is non-empty and has no dot, \<open>extname\<close> is \<open>.ext\<close>.
\<close>

lemma extname_name_ext:
  assumes name: "name \<noteq> []" "CHR ''/'' \<notin> set name"
      and ext: "ext \<noteq> []" "CHR ''/'' \<notin> set ext" "CHR ''.'' \<notin> set ext"
      and pre: "pre = [] \<or> (\<exists>d. pre = d @ ''/'')"
  shows "extname (pre @ name @ ''.'' @ ext) = ''.'' @ ext"
proof -
  define path where "path = pre @ name @ ''.'' @ ext"
  define init where
    "init = \<lparr>startDot = None, startPart = 0, endPos = None, matchedSlash = True, preDotState = 0\<rparr>"
  define sd where "sd = length pre + length name"
  define rest where "rest = rev name @ rev pre"
  have rv: "rev path = rev ext @ (CHR ''.'' # rest)" by (simp add: path_def rest_def)
  have lrest: "length rest = sd" by (simp add: rest_def sd_def)
  have lpath: "length (rev ext @ (CHR ''.'' # rest)) = length path" by (simp add: rv [symmetric])
  define s1 where "s1 = init\<lparr>endPos := Some (length path), matchedSlash := False\<rparr>"
  have e1: "\<forall>c\<in>set (rev ext). c \<noteq> CHR ''/'' \<and> c \<noteq> CHR ''.''" using ext by auto
  have i0: "startDot init = None" "endPos init = None" by (simp_all add: init_def)
  have a: "extname_loop (rev path) init = extname_loop (CHR ''.'' # rest) s1"
    unfolding rv extname_loop_tail [OF e1 i0(1)] lpath s1_def using ext(1) i0(2) by simp
  define s2 where "s2 = s1\<lparr>startDot := Some sd\<rparr>"
  have i1: "startDot s1 = None" "endPos s1 = Some (length path)" by (simp_all add: s1_def init_def)
  have b: "extname_loop (CHR ''.'' # rest) s1 = extname_loop rest s2"
    unfolding extname_loop_dot [OF i1] lrest s2_def ..
  have n1: "\<forall>c\<in>set (rev name). c \<noteq> CHR ''/''" using name by auto
  have i2: "startDot s2 = Some sd" "endPos s2 = Some (length path)" "\<not> matchedSlash s2"
    by (simp_all add: s2_def s1_def init_def)
  from extname_loop_name [OF n1 i2(1,2), of "rev pre"] name(1) obtain p where
    c: "extname_loop rest s2 = extname_loop (rev pre) (s2\<lparr>preDotState := p\<rparr>)"
    and p0: "p \<noteq> 0"
    unfolding rest_def by auto
  define s3 where "s3 = s2\<lparr>preDotState := p\<rparr>"
  have i3: "startDot s3 = Some sd" "endPos s3 = Some (length path)" "\<not> matchedSlash s3"
    "preDotState s3 = p"
    using i2 by (simp_all add: s3_def)
  obtain sp where d: "extname_loop (rev pre) s3 = s3\<lparr>startPart := sp\<rparr>"
  proof (cases "pre = []")
    case True
    have "s3\<lparr>startPart := startPart s3\<rparr> = s3" by (cases s3) simp
    with True have "extname_loop (rev pre) s3 = s3\<lparr>startPart := startPart s3\<rparr>" by simp
    then show ?thesis by (rule that)
  next
    case False
    with pre obtain d where "pre = d @ ''/''" by blast
    then have r: "rev pre = CHR ''/'' # rev d" by simp
    have "extname_loop (rev pre) s3 = s3\<lparr>startPart := length (rev d) + 1\<rparr>"
      unfolding r by (rule extname_loop_slash [OF i3(3)])
    then show ?thesis by (rule that)
  qed
  have final: "extname_loop (rev path) init = s3\<lparr>startPart := sp\<rparr>"
    unfolding a b c s3_def [symmetric] d ..
  have lp: "length path = sd + 1 + length ext" by (simp add: path_def sd_def)
  have ne: "sd \<noteq> length path - 1" using ext(1) lp by (cases ext) simp_all
  have "extname path = take (length path - sd) (drop sd path)"
    unfolding extname_def init_def [symmetric] final Let_def using p0 ne i3
    by simp
  also have "drop sd path = ''.'' @ ext" by (simp add: path_def sd_def)
  also have "take (length path - sd) (''.'' @ ext) = ''.'' @ ext" by (simp add: lp)
  finally show ?thesis by (simp add: path_def)
qed

end
